theory Spec2Isabelle
  imports Complex_Main
begin

section \<open>Data model of gis.py\<close>

text \<open>
  A geometry of a polygon layer is a \<open>Polygon\<close> or a \<open>MultiPolygon\<close> of one or more
  parts. The polygons themselves (\<open>'p\<close>), the rings of a boundary (\<open>'l\<close>), the
  coordinate reference systems (\<open>'c\<close>) and the rasters (\<open>'r\<close>) belong to the geometry
  libraries the module calls (shapely, geopandas, rasterstats, numpy); their operations
  are the fields of the record \<open>engine\<close> below. The last field, \<open>tie_rank\<close>, is the
  order the sort of numpy leaves equal values in: for the labelled values that are sorted,
  it ranks the labels, and labels of equal value come out by rank.
\<close>

datatype 'p geom = Polygon 'p | MultiPolygon 'p "'p list"

datatype 'l bound = LineString 'l | MultiLineString "'l list"

text \<open>An attribute value once \<open>fillna("NAN")\<close> has run; before, a missing value is \<open>None\<close>.\<close>

datatype cell = Str string | Num real

text \<open>
  One row of a GeoDataFrame, projected on the configured column sets: \<open>cats\<close> are the
  values of the \<open>cat_col\<close> columns in order, \<open>keeps\<close> those of \<open>keep_cols\<close> (empty when
  \<open>keep_cols\<close> is \<open>None\<close>), \<open>others\<close> the remaining attribute columns. A row of
  \<open>gdf_out\<close> has the transient column \<open>changed\<close> as well.
\<close>

record ('p, 'a) feature =
  geometry :: "'p geom"
  cats :: "'a list"
  keeps :: "'a list"
  others :: "'a list"

record ('p, 'a) row = "('p, 'a) feature" +
  changed :: bool

record ('p, 'c) geodataframe =
  crs :: "'c option"
  features :: "('p, cell option) feature list"

datatype error = CrsError | TypeError | ValueError | KeyError | Warning

record ('p, 'l, 'c, 'r) engine =
  area :: "'p geom \<Rightarrow> real"
  area_epsg31467 :: "'c \<Rightarrow> 'p geom \<Rightarrow> real"
  touches :: "'p geom \<Rightarrow> 'p geom \<Rightarrow> bool"
  intersects :: "'p geom \<Rightarrow> 'p geom \<Rightarrow> bool"
  unary_union :: "'p geom list \<Rightarrow> 'p geom"
  boundary :: "'p geom \<Rightarrow> 'l bound"
  ring_meets :: "'l \<Rightarrow> 'p geom \<Rightarrow> bool"
  shared_paths_length :: "'l \<Rightarrow> 'l \<Rightarrow> real"
  zonal_mean :: "'r \<Rightarrow> 'c \<Rightarrow> 'p geom \<Rightarrow> real"
  bounds :: "'p geom \<Rightarrow> real \<times> real \<times> real \<times> real"
  tie_rank :: "(nat \<times> real) list \<Rightarrow> nat \<Rightarrow> nat"

section \<open>Feature store: explode and dissolve\<close>

fun get_parts :: "'p geom \<Rightarrow> 'p geom list" where
  "get_parts (Polygon p) = [Polygon p]"
| "get_parts (MultiPolygon p ps) = map Polygon (p # ps)"

definition explode :: "('p, 'a, 'z) feature_scheme list \<Rightarrow> ('p, 'a, 'z) feature_scheme list" where
  "explode rows = concat (map (\<lambda>r. map (\<lambda>g. r\<lparr>geometry := g\<rparr>) (get_parts (geometry r))) rows)"

definition dis_key :: "('p, 'a, 'z) feature_scheme \<Rightarrow> 'a list" where
  "dis_key r = cats r @ keeps r"

function dissolve ::
  "('p, 'l, 'c, 'r) engine \<Rightarrow> ('p, 'a, 'z) feature_scheme list \<Rightarrow> ('p, 'a, 'z) feature_scheme list"
where
  "dissolve E [] = []"
| "dissolve E (r # rs) =
     r\<lparr>geometry := unary_union E (geometry r # map geometry (filter (\<lambda>s. dis_key s = dis_key r) rs))\<rparr>
       # dissolve E (filter (\<lambda>s. dis_key s \<noteq> dis_key r) rs)"
  by pat_completeness auto
termination
  by (relation "measure (\<lambda>(E, rs). length rs)") (auto simp: less_Suc_eq_le)

section \<open>Neighbour resolver\<close>

definition candidates ::
  "('p, 'l, 'c, 'r) engine \<Rightarrow> ('p, cell) row list \<Rightarrow> ('p, cell, 'z) feature_scheme
     \<Rightarrow> (nat \<times> ('p, cell) row) list"
where
  "candidates E gdf_out row =
     (let geom = geometry row;
          touch = filter (\<lambda>(j, r). touches E (geometry r) geom \<or> intersects E (geometry r) geom)
                    (enumerate 0 gdf_out);
          touch = filter (\<lambda>(j, r). list_ex (\<lambda>(a, b). a \<noteq> b) (zip (cats r) (cats row))) touch
      in filter (\<lambda>(j, r). list_all (\<lambda>(a, b). a = b) (zip (keeps r) (keeps row))) touch)"

fun idxmin :: "(nat \<times> real) list \<Rightarrow> (nat \<times> real) option" where
  "idxmin [] = None"
| "idxmin ((i, v) # xs) =
     (case idxmin xs of
        None \<Rightarrow> Some (i, v)
      | Some (j, w) \<Rightarrow> if w < v then Some (j, w) else Some (i, v))"

fun idxmax :: "(nat \<times> real) list \<Rightarrow> (nat \<times> real) option" where
  "idxmax [] = None"
| "idxmax ((i, v) # xs) =
     (case idxmax xs of
        None \<Rightarrow> Some (i, v)
      | Some (j, w) \<Rightarrow> if v < w then Some (j, w) else Some (i, v))"

text \<open>
  Lines 253 to 269. \<open>x in series\<close> of pandas tests the labels of the series, not its
  values: line 267 asks whether the least difference, as a number, is the label of
  another candidate.
\<close>

definition raster_choice ::
  "('p, 'l, 'c, 'r) engine \<Rightarrow> 'r \<Rightarrow> 'c option \<Rightarrow> 'p geom \<Rightarrow> (nat \<times> ('p, cell) row) list
     \<Rightarrow> error + (nat option \<times> (nat \<times> ('p, cell) row) list)"
where
  "raster_choice E raster crs_in geom touch =
     (case crs_in of
        None \<Rightarrow> Inl CrsError
      | Some c \<Rightarrow>
          (let row_mean = zonal_mean E raster c geom;
               raster_diff = map (\<lambda>(j, r). (j, \<bar>zonal_mean E raster c (geometry r) - row_mean\<bar>)) touch
           in case idxmin raster_diff of
                None \<Rightarrow> Inl ValueError
              | Some (repl_id, d) \<Rightarrow>
                  if d \<in> set (map (\<lambda>(j, v). real j) (filter (\<lambda>(j, v). j \<noteq> repl_id) raster_diff))
                  then Inr (None, map fst (filter (\<lambda>(t, (j, v)). v = d) (zip touch raster_diff)))
                  else Inr (Some repl_id, touch)))"

text \<open>Lines 276 to 280: of a neighbour's rings, the last one that meets the sliver.\<close>

fun nb_ring :: "('p, 'l, 'c, 'r) engine \<Rightarrow> 'p geom \<Rightarrow> 'l bound \<Rightarrow> 'l bound" where
  "nb_ring E geom (LineString l) = LineString l"
| "nb_ring E geom (MultiLineString ls) =
     fold (\<lambda>nb_bound_i nb_bound. if ring_meets E nb_bound_i geom then LineString nb_bound_i else nb_bound)
       ls (MultiLineString ls)"

text \<open>
  Lines 282 to 288. \<open>shared_paths\<close> takes two LineStrings and raises a TypeError on
  anything else; \<open>max\<close> of no lengths raises a ValueError.
\<close>

definition shared_border_length ::
  "('p, 'l, 'c, 'r) engine \<Rightarrow> 'p geom \<Rightarrow> 'p geom \<Rightarrow> error + real"
where
  "shared_border_length E geom nb =
     (case nb_ring E geom (boundary E nb) of
        MultiLineString ls \<Rightarrow> (if boundary E geom = MultiLineString [] then Inl ValueError else Inl TypeError)
      | LineString nb_bound \<Rightarrow>
          (case boundary E geom of
             MultiLineString [] \<Rightarrow> Inl ValueError
           | MultiLineString (g # gs) \<Rightarrow>
               Inr (fold max (map (\<lambda>geom_bound_i. shared_paths_length E geom_bound_i nb_bound) gs)
                      (shared_paths_length E g nb_bound))
           | LineString geom_bound \<Rightarrow> Inr (shared_paths_length E geom_bound nb_bound)))"

fun collect :: "('a \<Rightarrow> error + 'b) \<Rightarrow> 'a list \<Rightarrow> error + 'b list" where
  "collect f [] = Inr []"
| "collect f (x # xs) =
     (case f x of
        Inl e \<Rightarrow> Inl e
      | Inr y \<Rightarrow> (case collect f xs of Inl e \<Rightarrow> Inl e | Inr ys \<Rightarrow> Inr (y # ys)))"

definition border_scores ::
  "('p, 'l, 'c, 'r) engine \<Rightarrow> 'p geom \<Rightarrow> (nat \<times> ('p, cell) row) list \<Rightarrow> error + (nat \<times> real) list"
where
  "border_scores E geom touch =
     collect (\<lambda>(t_i, r). case shared_border_length E geom (geometry r) of
                           Inl e \<Rightarrow> Inl e | Inr v \<Rightarrow> Inr (t_i, v)) touch"

definition border_choice ::
  "('p, 'l, 'c, 'r) engine \<Rightarrow> 'p geom \<Rightarrow> (nat \<times> ('p, cell) row) list \<Rightarrow> error + nat"
where
  "border_choice E geom touch =
     (case border_scores E geom touch of
        Inl e \<Rightarrow> Inl e
      | Inr scores \<Rightarrow> (case idxmax scores of None \<Rightarrow> Inl KeyError | Some (repl_id, v) \<Rightarrow> Inr repl_id))"

text \<open>Lines 248 to 290: the label of the neighbour to take the category from.\<close>

definition choose_neighbour ::
  "('p, 'l, 'c, 'r) engine \<Rightarrow> 'c option \<Rightarrow> 'r option \<Rightarrow> 'p geom \<Rightarrow> (nat \<times> ('p, cell) row) list
     \<Rightarrow> error + (nat \<times> (nat \<times> ('p, cell) row) list)"
where
  "choose_neighbour E crs_in comp_raster geom touch =
     (case (case touch of [(j, r)] \<Rightarrow> Some j | _ \<Rightarrow> None) of
        Some repl_id \<Rightarrow> Inr (repl_id, touch)
      | None \<Rightarrow>
          (case (case comp_raster of
                   None \<Rightarrow> Inr (None, touch)
                 | Some raster \<Rightarrow> raster_choice E raster crs_in geom touch) of
             Inl e \<Rightarrow> Inl e
           | Inr (Some repl_id, touch') \<Rightarrow> Inr (repl_id, touch')
           | Inr (None, touch') \<Rightarrow>
               (case border_choice E geom touch' of
                  Inl e \<Rightarrow> Inl e
                | Inr repl_id \<Rightarrow> Inr (repl_id, touch'))))"

text \<open>
  Lines 242 to 246: the candidates the selection works on, or \<open>None\<close> for \<open>continue\<close>.
  Dissolving and exploding relabels the candidates \<open>0, 1, ...\<close>.
\<close>

definition refresh_touch ::
  "('p, 'l, 'c, 'r) engine \<Rightarrow> (nat \<times> ('p, cell) row) list \<Rightarrow> (nat \<times> ('p, cell) row) list option"
where
  "refresh_touch E touch =
     (if list_ex (\<lambda>(j, r). changed r) touch
      then Some (enumerate 0 (explode (dissolve E (map snd touch))))
      else if touch = [] then None
      else Some touch)"

text \<open>
  Lines 248 to 295: the selection among the candidates \<open>touch\<close> and the rewriting of
  the sliver's category. The label \<open>i\<close> of a row of \<open>mask_shps_small\<close> is its position
  in \<open>gdf_out\<close>, so line 294 is a list update. Geometries are left as they are.
\<close>

definition select_and_replace ::
  "('p, 'l, 'c, 'r) engine \<Rightarrow> 'c option \<Rightarrow> 'r option \<Rightarrow> ('p, cell) row list
     \<Rightarrow> nat \<Rightarrow> ('p, cell) row \<Rightarrow> (nat \<times> ('p, cell) row) list \<Rightarrow> error + ('p, cell) row list"
where
  "select_and_replace E crs_in comp_raster gdf_out i row touch =
     (case choose_neighbour E crs_in comp_raster (geometry row) touch of
        Inl e \<Rightarrow> Inl e
      | Inr (repl_id, touch') \<Rightarrow>
          (case map_of touch' repl_id of
             None \<Rightarrow> Inl KeyError
           | Some nb \<Rightarrow> Inr (gdf_out[i := (gdf_out ! i)\<lparr>cats := cats nb, changed := True\<rparr>])))"

text \<open>Lines 230 to 295, one turn of the \<open>for\<close> loop.\<close>

definition scan_row ::
  "('p, 'l, 'c, 'r) engine \<Rightarrow> 'c option \<Rightarrow> 'r option \<Rightarrow> ('p, cell) row list
     \<Rightarrow> nat \<times> ('p, cell) row \<Rightarrow> error + ('p, cell) row list"
where
  "scan_row E crs_in comp_raster gdf_out ir =
     (case ir of (i, row) \<Rightarrow>
        (case refresh_touch E (candidates E gdf_out row) of
           None \<Rightarrow> Inr gdf_out
         | Some touch \<Rightarrow> select_and_replace E crs_in comp_raster gdf_out i row touch))"

fun scan ::
  "('p, 'l, 'c, 'r) engine \<Rightarrow> 'c option \<Rightarrow> 'r option \<Rightarrow> (nat \<times> ('p, cell) row) list
     \<Rightarrow> ('p, cell) row list \<Rightarrow> error + ('p, cell) row list"
where
  "scan E crs_in comp_raster [] gdf_out = Inr gdf_out"
| "scan E crs_in comp_raster (ir # todo) gdf_out =
     (case scan_row E crs_in comp_raster gdf_out ir of
        Inl e \<Rightarrow> Inl e
      | Inr gdf_out' \<Rightarrow> scan E crs_in comp_raster todo gdf_out')"

section \<open>Simplification engine\<close>

text \<open>
  Lines 218 and 219, again at 306 to 308. \<open>to_crs\<close> raises on a layer with no CRS. The
  threshold is compared with the area in EPSG:31467, the order is by \<open>.area\<close> in the
  layer's own CRS. \<open>sort_values\<close> sorts by area; rows of equal area come in the order
  \<open>tie_rank\<close> gives (the two stable sorts below sort by area, then by rank).
\<close>

definition sort_values ::
  "('p, 'l, 'c, 'r) engine \<Rightarrow> (nat \<times> ('p, cell) row) list \<Rightarrow> (nat \<times> ('p, cell) row) list"
where
  "sort_values E rows =
     (let areas = map (\<lambda>(i, r). (i, area E (geometry r))) rows
      in sort_key (\<lambda>(i, r). area E (geometry r)) (sort_key (\<lambda>(i, r). tie_rank E areas i) rows))"

definition small_shps ::
  "('p, 'l, 'c, 'r) engine \<Rightarrow> 'c option \<Rightarrow> real \<Rightarrow> ('p, cell) row list
     \<Rightarrow> error + (nat \<times> ('p, cell) row) list"
where
  "small_shps E crs_in area_lim gdf_out =
     (case crs_in of
        None \<Rightarrow> Inl CrsError
      | Some c \<Rightarrow>
          Inr (sort_values E
                 (filter (\<lambda>(i, r). area_epsg31467 E c (geometry r) < area_lim) (enumerate 0 gdf_out))))"

record 'p loop_state =
  gdf_out :: "('p, cell) row list"
  mask_shps_small :: "(nat \<times> ('p, cell) row) list"
  len_before :: nat
  len_after :: nat

text \<open>Lines 229 to 308, the body of the \<open>while\<close> loop.\<close>

definition pass ::
  "('p, 'l, 'c, 'r) engine \<Rightarrow> 'c option \<Rightarrow> real \<Rightarrow> 'r option \<Rightarrow> 'p loop_state
     \<Rightarrow> error + 'p loop_state"
where
  "pass E crs_in area_lim comp_raster st =
     (case scan E crs_in comp_raster (mask_shps_small st) (gdf_out st) of
        Inl e \<Rightarrow> Inl e
      | Inr scanned \<Rightarrow>
          (let gdf_dis = dissolve E scanned;
               exploded = map (\<lambda>r. r\<lparr>changed := False\<rparr>) (explode gdf_dis)
           in case small_shps E crs_in area_lim exploded of
                Inl e \<Rightarrow> Inl e
              | Inr small \<Rightarrow>
                  Inr \<lparr>gdf_out = exploded, mask_shps_small = small,
                       len_before = length scanned, len_after = length exploded\<rparr>))"

text \<open>Lines 225 to 227, the test of the \<open>while\<close> loop.\<close>

definition continues :: "'p loop_state \<Rightarrow> bool" where
  "continues st = (length (mask_shps_small st) > 0 \<and> len_before st \<noteq> len_after st)"

partial_function (option) simplify_loop ::
  "('p, 'l, 'c, 'r) engine \<Rightarrow> 'c option \<Rightarrow> real \<Rightarrow> 'r option \<Rightarrow> 'p loop_state
     \<Rightarrow> (error + 'p loop_state) option"
where
  "simplify_loop E crs_in area_lim comp_raster st =
     (if continues st
      then (case pass E crs_in area_lim comp_raster st of
              Inl e \<Rightarrow> Some (Inl e)
            | Inr st' \<Rightarrow> simplify_loop E crs_in area_lim comp_raster st')
      else Some (Inr st))"

definition fillna :: "cell option \<Rightarrow> cell" where
  "fillna v = (case v of None \<Rightarrow> Str ''NAN'' | Some c \<Rightarrow> c)"

definition restore_nan :: "cell \<Rightarrow> cell option" where
  "restore_nan c = (if c = Str ''NAN'' then None else Some c)"

definition prepare :: "('p, cell option) feature \<Rightarrow> ('p, cell) row" where
  "prepare f = \<lparr>geometry = geometry f, cats = map fillna (cats f), keeps = map fillna (keeps f),
                others = map fillna (others f), changed = False\<rparr>"

definition finish :: "('p, cell) row \<Rightarrow> ('p, cell option) feature" where
  "finish r = \<lparr>geometry = geometry r, cats = map restore_nan (cats r),
               keeps = map restore_nan (keeps r), others = map restore_nan (others r)\<rparr>"

text \<open>
  Lines 193 to 222: the first value of the loop's variables. The counts 3 and 2 are
  the source's own, chosen to differ.
\<close>

definition initial ::
  "('p, 'l, 'c, 'r) engine \<Rightarrow> ('p, 'c) geodataframe \<Rightarrow> real \<Rightarrow> error + 'p loop_state"
where
  "initial E gdf_in area_lim =
     (let rows = map prepare (explode (features gdf_in))
      in case small_shps E (crs gdf_in) area_lim rows of
           Inl e \<Rightarrow> Inl e
         | Inr small \<Rightarrow> Inr \<lparr>gdf_out = rows, mask_shps_small = small, len_before = 3, len_after = 2\<rparr>)"

text \<open>
  \<open>simplify_shps\<close>: \<open>None\<close> when the loop does not return, \<open>Some (Inl e)\<close> when the call
  raises, \<open>Some (Inr gdf)\<close> when it returns \<open>gdf\<close>. The restoring of the column types by
  \<open>astype\<close> is not part of the model.
\<close>

definition simplify_shps ::
  "('p, 'l, 'c, 'r) engine \<Rightarrow> ('p, 'c) geodataframe \<Rightarrow> real \<Rightarrow> 'r option
     \<Rightarrow> (error + ('p, 'c) geodataframe) option"
where
  "simplify_shps E gdf_in area_lim comp_raster =
     (case initial E gdf_in area_lim of
        Inl e \<Rightarrow> Some (Inl e)
      | Inr st \<Rightarrow>
          (case simplify_loop E (crs gdf_in) area_lim comp_raster st of
             None \<Rightarrow> None
           | Some (Inl e) \<Rightarrow> Some (Inl e)
           | Some (Inr st') \<Rightarrow>
               Some (Inr \<lparr>crs = crs gdf_in, features = map finish (gdf_out st')\<rparr>)))"

text \<open>
  The values the loop's variables take at the test of the \<open>while\<close> loop, during
  \<open>simplify_shps E gdf_in area_lim comp_raster\<close>.
\<close>

inductive reachable ::
  "('p, 'l, 'c, 'r) engine \<Rightarrow> ('p, 'c) geodataframe \<Rightarrow> real \<Rightarrow> 'r option \<Rightarrow> 'p loop_state \<Rightarrow> bool"
  for E gdf_in area_lim comp_raster
where
  start: "initial E gdf_in area_lim = Inr st \<Longrightarrow> reachable E gdf_in area_lim comp_raster st"
| step: "reachable E gdf_in area_lim comp_raster st \<Longrightarrow> continues st
          \<Longrightarrow> pass E (crs gdf_in) area_lim comp_raster st = Inr st'
          \<Longrightarrow> reachable E gdf_in area_lim comp_raster st'"

section \<open>Spatial partitioner\<close>

text \<open>
  Lines 360 to 399 of \<open>simplify_shps_mp\<close>. \<open>bounds\<close> gives \<open>(minx, miny, maxx, maxy)\<close>. The
  quarters are numbered 0 to 3 in the source's order.
\<close>

definition in_quarter ::
  "('p, 'l, 'c, 'r) engine \<Rightarrow> real \<Rightarrow> real \<Rightarrow> nat \<Rightarrow> 'p geom \<Rightarrow> bool"
where
  "in_quarter E mean_x mean_y k g =
     (case bounds E g of (minx, miny, maxx, maxy) \<Rightarrow>
        if k = 0 then miny \<ge> mean_y \<and> maxx \<le> mean_x
        else if k = 1 then miny \<ge> mean_y \<and> minx > mean_x
        else if k = 2 then maxy < mean_y \<and> maxx \<le> mean_x
        else maxy < mean_y \<and> minx > mean_x)"

text \<open>
  The selection of \<open>parts_border\<close>, lines 372 to 388, is made of two tests for each
  quarter: the first on the distance to the horizontal middle line, the second on the
  distance to the vertical one. The source joins them with \<open>&\<close>.
\<close>

definition near_mean_y ::
  "('p, 'l, 'c, 'r) engine \<Rightarrow> real \<Rightarrow> real \<Rightarrow> nat \<Rightarrow> 'p geom \<Rightarrow> bool"
where
  "near_mean_y E mean_y dist_lim k g =
     (case bounds E g of (minx, miny, maxx, maxy) \<Rightarrow>
        if k = 0 \<or> k = 1 then miny < mean_y + dist_lim else maxy > mean_y - dist_lim)"

definition near_mean_x ::
  "('p, 'l, 'c, 'r) engine \<Rightarrow> real \<Rightarrow> real \<Rightarrow> nat \<Rightarrow> 'p geom \<Rightarrow> bool"
where
  "near_mean_x E mean_x dist_lim k g =
     (case bounds E g of (minx, miny, maxx, maxy) \<Rightarrow>
        if k = 0 \<or> k = 2 then maxx > mean_x - dist_lim else minx < mean_x + dist_lim)"

definition in_border ::
  "('p, 'l, 'c, 'r) engine \<Rightarrow> real \<Rightarrow> real \<Rightarrow> real \<Rightarrow> nat \<Rightarrow> 'p geom \<Rightarrow> bool"
where
  "in_border E mean_x mean_y dist_lim k g =
     (near_mean_y E mean_y dist_lim k g \<and> near_mean_x E mean_x dist_lim k g)"

text \<open>
  The border band of a quarter in the words of the specification and of the docstring of
  \<open>dist_lim\<close> (\<open>The distance in meters around the middle-lines\<close>): within \<open>dist_lim\<close> of
  one of the two middle lines.
\<close>

definition spec_border_band ::
  "('p, 'l, 'c, 'r) engine \<Rightarrow> real \<Rightarrow> real \<Rightarrow> real \<Rightarrow> nat \<Rightarrow> 'p geom \<Rightarrow> bool"
where
  "spec_border_band E mean_x mean_y dist_lim k g =
     (near_mean_y E mean_y dist_lim k g \<or> near_mean_x E mean_x dist_lim k g)"

text \<open>
  A row of \<open>gdf_in\<close> is paired with its label in the index of \<open>gdf_in\<close>. Lines 391 to 399
  work by label: \<open>drop\<close> removes from a part every row whose label is one of the labels
  to exclude, and \<open>excluded_shps\<close> are the rows of \<open>gdf_in\<close> whose label is the label of
  no row left in a part.
\<close>

record ('i, 'p) partition =
  parts :: "('i \<times> ('p, cell option) feature) list list"
  excluded_shps :: "('i \<times> ('p, cell option) feature) list"

definition split_at ::
  "('p, 'l, 'c, 'r) engine \<Rightarrow> real \<Rightarrow> real \<Rightarrow> real \<Rightarrow> real
     \<Rightarrow> ('i \<times> ('p, cell option) feature) list \<Rightarrow> ('i, 'p) partition"
where
  "split_at E mean_x mean_y dist_lim area_lim rows =
     (let quarter = (\<lambda>k. filter (\<lambda>(i, f). in_quarter E mean_x mean_y k (geometry f)) rows);
          border = (\<lambda>k. filter (\<lambda>(i, f). in_border E mean_x mean_y dist_lim k (geometry f)) (quarter k));
          part_excl_shps = (\<lambda>k. filter (\<lambda>(i, f). area E (geometry f) < area_lim) (border k));
          part = (\<lambda>k. filter (\<lambda>(i, f). i \<notin> set (map fst (part_excl_shps k))) (quarter k));
          indexes_in_parts = concat (map (\<lambda>k. map fst (part k)) [0, 1, 2, 3])
      in \<lparr>parts = map part [0, 1, 2, 3],
          excluded_shps = filter (\<lambda>(i, f). i \<notin> set indexes_in_parts) rows\<rparr>)"

text \<open>
  Lines 361 to 364: the middle of the layer's extent. The extent of an empty layer is
  not a number in pandas; an empty layer has no row to place, whatever the middle is.
\<close>

definition extent_mid :: "('p, 'l, 'c, 'r) engine \<Rightarrow> ('p, 'c) geodataframe \<Rightarrow> real \<times> real" where
  "extent_mid E gdf_in =
     (let bs = map (\<lambda>f. bounds E (geometry f)) (features gdf_in)
      in ((Max (set (map (\<lambda>(minx, miny, maxx, maxy). maxx) bs))
            + Min (set (map (\<lambda>(minx, miny, maxx, maxy). minx) bs))) / 2,
          (Max (set (map (\<lambda>(minx, miny, maxx, maxy). maxy) bs))
            + Min (set (map (\<lambda>(minx, miny, maxx, maxy). miny) bs))) / 2))"

text \<open>
  The split of \<open>gdf_in\<close>, whose index is the list \<open>labels\<close> (one label for each row, in
  the order of the rows).
\<close>

definition split_parts ::
  "('p, 'l, 'c, 'r) engine \<Rightarrow> 'i list \<Rightarrow> ('p, 'c) geodataframe \<Rightarrow> real \<Rightarrow> real \<Rightarrow> ('i, 'p) partition"
where
  "split_parts E labels gdf_in dist_lim area_lim =
     (case extent_mid E gdf_in of (mean_x, mean_y) \<Rightarrow>
        split_at E mean_x mean_y dist_lim area_lim (zip labels (features gdf_in)))"

text \<open>Lines 437 to 440: what the last call of \<open>simplify_shps\<close> is given.\<close>

definition final_input ::
  "('p, 'c) geodataframe list \<Rightarrow> ('p, 'c) geodataframe \<Rightarrow> ('i, 'p) partition \<Rightarrow> ('p, 'c) geodataframe"
where
  "final_input parts_simplified gdf_in sp =
     \<lparr>crs = crs gdf_in,
      features = concat (map features parts_simplified) @ map snd (excluded_shps sp)\<rparr>"

section \<open>Deleting a shapefile\<close>

text \<open>
  A path is its directory and its last component. \<open>suffix\<close> and \<open>stem\<close> are those of
  pathlib: the last dot counts unless it is the first or the last character of the name.
\<close>

record path =
  parent :: string
  name :: string

definition rfind_dot :: "string \<Rightarrow> nat option" where
  "rfind_dot s =
     (if CHR ''.'' \<in> set s
      then Some (length s - 1 - length (takeWhile (\<lambda>c. c \<noteq> CHR ''.'') (rev s)))
      else None)"

definition suffix :: "path \<Rightarrow> string" where
  "suffix fp =
     (case rfind_dot (name fp) of
        None \<Rightarrow> []
      | Some i \<Rightarrow> if 0 < i \<and> i < length (name fp) - 1 then drop i (name fp) else [])"

definition stem :: "path \<Rightarrow> string" where
  "stem fp =
     (case rfind_dot (name fp) of
        None \<Rightarrow> name fp
      | Some i \<Rightarrow> if 0 < i \<and> i < length (name fp) - 1 then take i (name fp) else name fp)"

text \<open>
  The patterns of \<open>Path.glob\<close> are those of fnmatch: \<open>*\<close> stands for any characters,
  \<open>?\<close> for one, \<open>[seq]\<close> for one character of \<open>seq\<close> and \<open>[!seq]\<close> for one not of it
  (\<open>a-z\<close> in \<open>seq\<close> is a range); a \<open>[\<close> that is never closed stands for itself.
\<close>

datatype pat = Lit char | AnyChar | Star | Class bool "(char \<times> char) list"

fun class_items :: "string \<Rightarrow> (char \<times> char) list" where
  "class_items (a # m # b # cs) =
     (if m = CHR ''-'' then (a, b) # class_items cs else (a, a) # class_items (m # b # cs))"
| "class_items (a # cs) = (a, a) # class_items cs"
| "class_items [] = []"

text \<open>
  The end of a class opened just before \<open>s\<close>: what lies in it and what follows it. A
  \<open>]\<close> at the start of the class (after the \<open>!\<close>, if there is one) is a member.
\<close>

definition split_class :: "string \<Rightarrow> (bool \<times> string \<times> string) option" where
  "split_class s =
     (let neg = (s \<noteq> [] \<and> hd s = CHR ''!'');
          s1 = (if neg then tl s else s);
          lead = (if s1 \<noteq> [] \<and> hd s1 = CHR '']'' then '']'' else []);
          s2 = (if lead = [] then s1 else tl s1);
          body = takeWhile (\<lambda>c. c \<noteq> CHR '']'') s2;
          after = dropWhile (\<lambda>c. c \<noteq> CHR '']'') s2
      in if after = [] then None else Some (neg, lead @ body, tl after))"

function translate :: "string \<Rightarrow> pat list" where
  "translate [] = []"
| "translate (c # cs) =
     (if c = CHR ''*'' then Star # translate cs
      else if c = CHR ''?'' then AnyChar # translate cs
      else if c = CHR ''[''
      then (case split_class cs of
              None \<Rightarrow> Lit c # translate cs
            | Some (neg, stuff, after) \<Rightarrow>
                Class neg (class_items stuff) # translate (drop (length cs - length after) cs))
      else Lit c # translate cs)"
  by pat_completeness auto
termination
  by (relation "measure length") auto

fun match1 :: "pat \<Rightarrow> char \<Rightarrow> bool" where
  "match1 (Lit a) c = (a = c)"
| "match1 AnyChar c = True"
| "match1 Star c = True"
| "match1 (Class neg items) c =
     (list_ex (\<lambda>(lo, hi). (of_char lo :: nat) \<le> of_char c \<and> (of_char c :: nat) \<le> of_char hi) items \<noteq> neg)"

fun fnmatch :: "pat list \<Rightarrow> string \<Rightarrow> bool" where
  "fnmatch [] s = (s = [])"
| "fnmatch (Star # ps) [] = fnmatch ps []"
| "fnmatch (Star # ps) (c # cs) = (fnmatch ps (c # cs) \<or> fnmatch (Star # ps) cs)"
| "fnmatch (p # ps) [] = False"
| "fnmatch (p # ps) (c # cs) = (match1 p c \<and> fnmatch ps cs)"

text \<open>
  The file system is the list of its files. \<open>glob\<close> lists the files of a directory
  whose names match a pattern that it accepts.
\<close>

definition glob :: "path list \<Rightarrow> string \<Rightarrow> string \<Rightarrow> path list" where
  "glob fs dir pattern = filter (\<lambda>f. parent f = dir \<and> fnmatch (translate pattern) (name f)) fs"

text \<open>
  \<open>Path.glob\<close> refuses a pattern with \<open>**\<close> inside a name with a ValueError (the pattern of
  \<open>del_shp\<close> ends in \<open>.*\<close>, so it is never \<open>**\<close> alone).
\<close>

fun double_star :: "string \<Rightarrow> bool" where
  "double_star (a # b # cs) = ((a = CHR ''*'' \<and> b = CHR ''*'') \<or> double_star (b # cs))"
| "double_star cs = False"

text \<open>Lines 447 to 461. The result is the file system after the call.\<close>

definition del_shp :: "path list \<Rightarrow> path \<Rightarrow> error + path list" where
  "del_shp fs fp =
     (if suffix fp = ''.shp''
      then (if double_star (stem fp @ ''.*'') then Inl ValueError
            else Inr (fold (\<lambda>fp_i fs'. removeAll fp_i fs') (glob fs (parent fp) (stem fp @ ''.*'')) fs))
      else Inl Warning)"

section \<open>Counting passes\<close>

text \<open>
  The loop of \<open>simplify_shps\<close> cut off after \<open>n\<close> passes: \<open>None\<close> when \<open>n\<close> passes do not
  end it. The source has no such bound; the function is here to count the passes of
  \<open>simplify_loop\<close>.
\<close>

fun simplify_loop_within ::
  "nat \<Rightarrow> ('p, 'l, 'c, 'r) engine \<Rightarrow> 'c option \<Rightarrow> real \<Rightarrow> 'r option \<Rightarrow> 'p loop_state
     \<Rightarrow> (error + 'p loop_state) option"
where
  "simplify_loop_within 0 E crs_in area_lim comp_raster st =
     (if continues st then None else Some (Inr st))"
| "simplify_loop_within (Suc n) E crs_in area_lim comp_raster st =
     (if continues st
      then (case pass E crs_in area_lim comp_raster st of
              Inl e \<Rightarrow> Some (Inl e)
            | Inr st' \<Rightarrow> simplify_loop_within n E crs_in area_lim comp_raster st')
      else Some (Inr st))"

definition simplify_shps_within ::
  "nat \<Rightarrow> ('p, 'l, 'c, 'r) engine \<Rightarrow> ('p, 'c) geodataframe \<Rightarrow> real \<Rightarrow> 'r option
     \<Rightarrow> (error + ('p, 'c) geodataframe) option"
where
  "simplify_shps_within n E gdf_in area_lim comp_raster =
     (case initial E gdf_in area_lim of
        Inl e \<Rightarrow> Some (Inl e)
      | Inr st \<Rightarrow>
          (case simplify_loop_within n E (crs gdf_in) area_lim comp_raster st of
             None \<Rightarrow> None
           | Some (Inl e) \<Rightarrow> Some (Inl e)
           | Some (Inr st') \<Rightarrow>
               Some (Inr \<lparr>crs = crs gdf_in, features = map finish (gdf_out st')\<rparr>)))"

text \<open>
  What the termination of the loop rests on in the geometry library: the union of
  \<open>k\<close> polygons, \<open>k\<close> at least one, has at most \<open>k\<close> parts.
\<close>

definition shrinking :: "('p, 'l, 'c, 'r) engine \<Rightarrow> bool" where
  "shrinking E =
     (\<forall>gs. gs \<noteq> [] \<and> (\<forall>g \<in> set gs. \<exists>p. g = Polygon p)
        \<longrightarrow> length (get_parts (unary_union E gs)) \<le> length gs)"

section \<open>A geometry library for strips\<close>

text \<open>
  Rectangles of height 1 side by side: the polygon \<open>(lo, hi)\<close> is
  \<open>[lo, hi] \<times> [0, 1]\<close>. Two of them touch when one ends where the other starts, and then
  share a border of length 1. The union of strips merges those that touch or overlap.
  The layer is in EPSG:31467.
\<close>

fun strips :: "(nat \<times> nat) geom \<Rightarrow> (nat \<times> nat) list" where
  "strips (Polygon p) = [p]"
| "strips (MultiPolygon p ps) = p # ps"

definition strip_area :: "(nat \<times> nat) geom \<Rightarrow> real" where
  "strip_area g = sum_list (map (\<lambda>(lo, hi). real hi - real lo) (strips g))"

definition strip_intersects :: "(nat \<times> nat) geom \<Rightarrow> (nat \<times> nat) geom \<Rightarrow> bool" where
  "strip_intersects a b =
     list_ex (\<lambda>(l, h). list_ex (\<lambda>(l', h'). l \<le> h' \<and> l' \<le> h) (strips b)) (strips a)"

definition strip_overlaps :: "(nat \<times> nat) geom \<Rightarrow> (nat \<times> nat) geom \<Rightarrow> bool" where
  "strip_overlaps a b =
     list_ex (\<lambda>(l, h). list_ex (\<lambda>(l', h'). l < h' \<and> l' < h) (strips b)) (strips a)"

fun insert_strip :: "nat \<times> nat \<Rightarrow> (nat \<times> nat) list \<Rightarrow> (nat \<times> nat) list" where
  "insert_strip (l, h) [] = [(l, h)]"
| "insert_strip (l, h) ((l', h') # xs) =
     (if h < l' then (l, h) # (l', h') # xs
      else if h' < l then (l', h') # insert_strip (l, h) xs
      else insert_strip (min l l', max h h') xs)"

definition strip_union :: "(nat \<times> nat) geom list \<Rightarrow> (nat \<times> nat) geom" where
  "strip_union gs =
     (case fold insert_strip (concat (map strips gs)) [] of
        [] \<Rightarrow> Polygon (0, 0)
      | [p] \<Rightarrow> Polygon p
      | p # ps \<Rightarrow> MultiPolygon p ps)"

definition strip :: "(nat \<times> nat, nat \<times> nat, unit, unit) engine" where
  "strip = \<lparr>
     area = strip_area,
     area_epsg31467 = (\<lambda>c. strip_area),
     touches = (\<lambda>a b. strip_intersects a b \<and> \<not> strip_overlaps a b),
     intersects = strip_intersects,
     unary_union = strip_union,
     boundary = (\<lambda>g. case g of Polygon p \<Rightarrow> LineString p | MultiPolygon p ps \<Rightarrow> MultiLineString (p # ps)),
     ring_meets = (\<lambda>l g. strip_intersects (Polygon l) g),
     shared_paths_length = (\<lambda>(l, h) (l', h'). if h = l' \<or> h' = l then 1 else 0),
     zonal_mean = (\<lambda>r c g. 0),
     bounds = (\<lambda>g. (real (Min (set (map fst (strips g)))), 0, real (Max (set (map snd (strips g)))), 1)),
     tie_rank = (\<lambda>areas i. 0)\<rparr>"

text \<open>
  A chain of \<open>n\<close> strips of widths 1, 2, 3, ..., each of a category of its own: strip
  \<open>k\<close> runs from \<open>pos k\<close> to \<open>pos (k + 1)\<close>.
\<close>

fun pos :: "nat \<Rightarrow> nat" where
  "pos 0 = 0"
| "pos (Suc k) = pos k + Suc k"

definition chain_gdf :: "nat \<Rightarrow> (nat \<times> nat, unit) geodataframe" where
  "chain_gdf n = \<lparr>crs = Some (), features =
     map (\<lambda>k. \<lparr>geometry = Polygon (pos k, pos (Suc k)), cats = [Some (Num (real k))],
                keeps = [], others = []\<rparr>) [0..<n]\<rparr>"

text \<open>
  The store after some passes over a chain: \<open>m\<close> strips, the last one reaching to \<open>H\<close>,
  strip \<open>k\<close> of category \<open>c k\<close>, with its flag \<open>ch k\<close>.
\<close>

definition chain_rows ::
  "nat \<Rightarrow> nat \<Rightarrow> (nat \<Rightarrow> real) \<Rightarrow> (nat \<Rightarrow> bool) \<Rightarrow> (nat \<times> nat, cell) row list"
where
  "chain_rows m H c ch =
     map (\<lambda>k. \<lparr>geometry = Polygon (pos k, if Suc k = m then H else pos (Suc k)),
                cats = [Num (c k)], keeps = [], others = [], changed = ch k\<rparr>) [0..<m]"

definition chain_state :: "nat \<Rightarrow> nat \<Rightarrow> (nat \<Rightarrow> real) \<Rightarrow> nat \<Rightarrow> nat \<Rightarrow> (nat \<times> nat) loop_state" where
  "chain_state m H c b a =
     \<lparr>gdf_out = chain_rows m H c (\<lambda>k. False),
      mask_shps_small = enumerate 0 (chain_rows m H c (\<lambda>k. False)),
      len_before = b, len_after = a\<rparr>"

section \<open>Layers used as examples\<close>

text \<open>
  Three polygons that touch one another: \<open>0\<close> of area 50 and category X, \<open>1\<close> of
  area 5 and category Y, \<open>2\<close> of area 3 and category Z; polygon \<open>3\<close> is the union
  of \<open>0\<close> and \<open>2\<close>, polygon \<open>4\<close> the union of all three. The border of \<open>2\<close> with
  \<open>0\<close> is 4 long, that with \<open>1\<close> is 1 long. The layer is in EPSG:31467 already.
\<close>

definition tri_area :: "nat geom \<Rightarrow> real" where
  "tri_area g = (case g of
      Polygon p \<Rightarrow> (if p = 0 then 50 else if p = 1 then 5 else if p = 2 then 3 else if p = 3 then 53 else 58)
    | MultiPolygon p ps \<Rightarrow> 58)"

definition tri_shared :: "nat \<Rightarrow> nat \<Rightarrow> real" where
  "tri_shared a b =
     (if {a, b} = {0, 2} then 4 else if {a, b} = {1, 2} then 1 else if {a, b} = {0, 1} then 2 else 0)"

definition triangle :: "(nat, nat, unit, unit) engine" where
  "triangle = \<lparr>
     area = tri_area,
     area_epsg31467 = (\<lambda>c. tri_area),
     touches = (\<lambda>a b. a \<noteq> b),
     intersects = (\<lambda>a b. True),
     unary_union = (\<lambda>gs. case gs of [g] \<Rightarrow> g | [g, h] \<Rightarrow> Polygon 3 | _ \<Rightarrow> Polygon 4),
     boundary = (\<lambda>g. case g of Polygon p \<Rightarrow> LineString p | MultiPolygon p ps \<Rightarrow> MultiLineString (p # ps)),
     ring_meets = (\<lambda>l g. True),
     shared_paths_length = tri_shared,
     zonal_mean = (\<lambda>r c g. 0),
     bounds = (\<lambda>g. (0, 0, 1, 1)),
     tie_rank = (\<lambda>areas i. 0)\<rparr>"

definition triangle_gdf :: "(nat, unit) geodataframe" where
  "triangle_gdf = \<lparr>crs = Some (), features =
     [\<lparr>geometry = Polygon 0, cats = [Some (Str ''X'')], keeps = [], others = [None]\<rparr>,
      \<lparr>geometry = Polygon 1, cats = [Some (Str ''Y'')], keeps = [], others = [Some (Num 1)]\<rparr>,
      \<lparr>geometry = Polygon 2, cats = [Some (Str ''Z'')], keeps = [], others = [Some (Num 2)]\<rparr>]\<rparr>"

definition tri_row :: "nat \<Rightarrow> string \<Rightarrow> cell \<Rightarrow> bool \<Rightarrow> (nat, cell) row" where
  "tri_row p c v ch = \<lparr>geometry = Polygon p, cats = [Str c], keeps = [], others = [v], changed = ch\<rparr>"

definition tri_start :: "nat loop_state" where
  "tri_start =
     \<lparr>gdf_out = [tri_row 0 ''X'' (Str ''NAN'') False, tri_row 1 ''Y'' (Num 1) False,
                 tri_row 2 ''Z'' (Num 2) False],
      mask_shps_small = [(2, tri_row 2 ''Z'' (Num 2) False), (1, tri_row 1 ''Y'' (Num 1) False)],
      len_before = 3, len_after = 2\<rparr>"

definition tri_scanned :: "(nat, cell) row list" where
  "tri_scanned = [tri_row 0 ''X'' (Str ''NAN'') False, tri_row 1 ''X'' (Num 1) True,
                  tri_row 2 ''X'' (Num 2) True]"

definition tri_end :: "nat loop_state" where
  "tri_end = \<lparr>gdf_out = [tri_row 4 ''X'' (Str ''NAN'') False],
     mask_shps_small = [], len_before = 3, len_after = 1\<rparr>"

definition tri_out :: "(nat, unit) geodataframe" where
  "tri_out = \<lparr>crs = Some (), features =
     [\<lparr>geometry = Polygon 4, cats = [Some (Str ''X'')], keeps = [], others = [None]\<rparr>]\<rparr>"
text \<open>
  A sliver \<open>0\<close> of category S with neighbours \<open>1\<close> (category A) and \<open>2\<close> (category B),
  or with neighbours \<open>3\<close> and \<open>4\<close>. Under the raster the sliver has mean 10, polygon
  \<open>1\<close> has 10.5 and polygon \<open>2\<close> has 9.5. The sliver shares a border of length 1 with
  \<open>1\<close>, 2 with \<open>2\<close> and 5 with \<open>4\<close>. Polygon \<open>3\<close> has a hole whose ring \<open>31\<close> meets the
  outer ring \<open>30\<close> in a point of the sliver's border: the sliver shares 10 with ring
  \<open>30\<close> and, but for that point, nothing with ring \<open>31\<close>.
\<close>

definition nbs_shared :: "nat \<Rightarrow> nat \<Rightarrow> real" where
  "nbs_shared a b =
     (if b = 1 then 1 else if b = 2 then 2 else if b = 30 then 10
      else if b = 4 then 5 else 0)"

definition nbs :: "(nat, nat, unit, unit) engine" where
  "nbs = \<lparr>
     area = (\<lambda>g. 1),
     area_epsg31467 = (\<lambda>c g. 1),
     touches = (\<lambda>a b. a \<noteq> b),
     intersects = (\<lambda>a b. True),
     unary_union = (\<lambda>gs. case gs of [g] \<Rightarrow> g | _ \<Rightarrow> Polygon 9),
     boundary = (\<lambda>g. case g of
                       Polygon p \<Rightarrow> (if p = 3 then MultiLineString [30, 31] else LineString p)
                     | MultiPolygon p ps \<Rightarrow> MultiLineString (p # ps)),
     ring_meets = (\<lambda>l g. True),
     shared_paths_length = nbs_shared,
     zonal_mean = (\<lambda>r c g. if g = Polygon 0 then 10 else if g = Polygon 1 then 10.5
                             else if g = Polygon 2 then 9.5 else 0),
     bounds = (\<lambda>g. (0, 0, 1, 1)),
     tie_rank = (\<lambda>areas i. 0)\<rparr>"

definition nb_row :: "nat \<Rightarrow> string \<Rightarrow> (nat, cell) row" where
  "nb_row p c = \<lparr>geometry = Polygon p, cats = [Str c], keeps = [], others = [], changed = False\<rparr>"

text \<open>
  The score of policy (c) in the specification's words: the greatest shared-path length
  over the rings of the sliver's boundary and the rings of the candidate's boundary.
\<close>

fun rings :: "'l bound \<Rightarrow> 'l list" where
  "rings (LineString l) = [l]"
| "rings (MultiLineString ls) = ls"

definition spec_border_score :: "('p, 'l, 'c, 'r) engine \<Rightarrow> 'p geom \<Rightarrow> 'p geom \<Rightarrow> real" where
  "spec_border_score E geom nb =
     Max (set (concat (map (\<lambda>g. map (\<lambda>n. shared_paths_length E g n) (rings (boundary E nb)))
                         (rings (boundary E geom)))))"


text \<open>
  A layer of extent 20 by 20, middle (10, 10): polygon \<open>0\<close> large in the first
  quarter, \<open>1\<close> small in the first quarter at the middle, \<open>2\<close> large in the fourth
  quarter, \<open>3\<close> of area 16 across both middle lines, \<open>4\<close> small in the first quarter
  on the horizontal middle line, far from the vertical one, \<open>5\<close> small in the first
  quarter, far from both middle lines. The index of the layer is \<open>quads_labels\<close>.
\<close>

definition quads :: "(nat, nat, unit, unit) engine" where
  "quads = \<lparr>
     area = (\<lambda>g. if g = Polygon 0 \<or> g = Polygon 2 then 64 else if g = Polygon 3 then 16 else 1),
     area_epsg31467 = (\<lambda>c g. if g = Polygon 0 \<or> g = Polygon 2 then 64 else if g = Polygon 3 then 16 else 1),
     touches = (\<lambda>a b. False),
     intersects = (\<lambda>a b. a = b),
     unary_union = (\<lambda>gs. case gs of [g] \<Rightarrow> g | _ \<Rightarrow> Polygon 9),
     boundary = (\<lambda>g. case g of Polygon p \<Rightarrow> LineString p | MultiPolygon p ps \<Rightarrow> MultiLineString (p # ps)),
     ring_meets = (\<lambda>l g. True),
     shared_paths_length = (\<lambda>a b. 0),
     zonal_mean = (\<lambda>r c g. 0),
     bounds = (\<lambda>g. if g = Polygon 0 then (0, 12, 8, 20)
                     else if g = Polygon 1 then (9, 10, 10, 11)
                     else if g = Polygon 2 then (12, 0, 20, 8)
                     else if g = Polygon 3 then (8, 8, 12, 12)
                     else if g = Polygon 4 then (0, 10, 1, 11)
                     else (0, 15, 1, 16)),
     tie_rank = (\<lambda>areas i. 0)\<rparr>"

definition quad_feature :: "nat \<Rightarrow> (nat, cell option) feature" where
  "quad_feature p = \<lparr>geometry = Polygon p, cats = [Some (Num (real p))], keeps = [], others = []\<rparr>"

definition quads_gdf :: "(nat, unit) geodataframe" where
  "quads_gdf = \<lparr>crs = Some (), features = map quad_feature [0, 1, 2, 3, 4, 5]\<rparr>"

definition quads_labels :: "string list" where
  "quads_labels = [''a'', ''b'', ''c'', ''d'', ''e'', ''f'']"

text \<open>
  A layer in a geographic CRS with two slivers that touch each other and nothing else.
  Polygon \<open>0\<close> (category A) lies north of polygon \<open>1\<close> (category B): in the layer's CRS
  its area is 101 against 100, in EPSG:31467 it is 799 against 800. Polygon \<open>2\<close> is
  their union.
\<close>

definition geo_area :: "nat geom \<Rightarrow> real" where
  "geo_area g = (if g = Polygon 0 then 101 else if g = Polygon 1 then 100 else 201)"

definition geo_area_epsg31467 :: "nat geom \<Rightarrow> real" where
  "geo_area_epsg31467 g = (if g = Polygon 0 then 799 else if g = Polygon 1 then 800 else 1599)"

definition geo :: "(nat, nat, unit, unit) engine" where
  "geo = \<lparr>
     area = geo_area,
     area_epsg31467 = (\<lambda>c. geo_area_epsg31467),
     touches = (\<lambda>a b. a \<noteq> b),
     intersects = (\<lambda>a b. True),
     unary_union = (\<lambda>gs. case gs of [g] \<Rightarrow> g | _ \<Rightarrow> Polygon 2),
     boundary = (\<lambda>g. case g of Polygon p \<Rightarrow> LineString p | MultiPolygon p ps \<Rightarrow> MultiLineString (p # ps)),
     ring_meets = (\<lambda>l g. True),
     shared_paths_length = (\<lambda>a b. if a = b then 0 else 1),
     zonal_mean = (\<lambda>r c g. 0),
     bounds = (\<lambda>g. (0, 0, 1, 1)),
     tie_rank = (\<lambda>areas i. 0)\<rparr>"

definition geo_gdf :: "(nat, unit) geodataframe" where
  "geo_gdf = \<lparr>crs = Some (), features =
     [\<lparr>geometry = Polygon 0, cats = [Some (Str ''A'')], keeps = [], others = []\<rparr>,
      \<lparr>geometry = Polygon 1, cats = [Some (Str ''B'')], keeps = [], others = []\<rparr>]\<rparr>"

definition geo_row :: "nat \<Rightarrow> string \<Rightarrow> bool \<Rightarrow> (nat, cell) row" where
  "geo_row p c ch = \<lparr>geometry = Polygon p, cats = [Str c], keeps = [], others = [], changed = ch\<rparr>"

definition geo_start :: "nat loop_state" where
  "geo_start =
     \<lparr>gdf_out = [geo_row 0 ''A'' False, geo_row 1 ''B'' False],
      mask_shps_small = [(1, geo_row 1 ''B'' False), (0, geo_row 0 ''A'' False)],
      len_before = 3, len_after = 2\<rparr>"

definition geo_end :: "string \<Rightarrow> nat loop_state" where
  "geo_end c = \<lparr>gdf_out = [geo_row 2 c False], mask_shps_small = [], len_before = 2, len_after = 1\<rparr>"

definition geo_out :: "string \<Rightarrow> (nat, unit) geodataframe" where
  "geo_out c = \<lparr>crs = Some (), features =
     [\<lparr>geometry = Polygon 2, cats = [Some (Str c)], keeps = [], others = []\<rparr>]\<rparr>"

text \<open>
  A directory \<open>d\<close> with the files of a layer named \<open>a[1]\<close> and one file of a layer
  named \<open>a1\<close>; and the same directory with the files of a layer \<open>roads\<close>.
\<close>

definition bracket_fs :: "path list" where
  "bracket_fs = [\<lparr>parent = ''d'', name = ''a[1].shp''\<rparr>, \<lparr>parent = ''d'', name = ''a[1].dbf''\<rparr>,
                 \<lparr>parent = ''d'', name = ''a1.shp''\<rparr>]"

definition roads_fs :: "path list" where
  "roads_fs = [\<lparr>parent = ''d'', name = ''roads.shp''\<rparr>, \<lparr>parent = ''d'', name = ''roads.shp.xml''\<rparr>,
               \<lparr>parent = ''d'', name = ''roads2.shp''\<rparr>, \<lparr>parent = ''e'', name = ''roads.dbf''\<rparr>]"

section \<open>Invariants of the loop\<close>

lemma get_parts_polygon: "g \<in> set (get_parts x) \<Longrightarrow> \<exists>p. g = Polygon p"
  by (cases x) auto

lemma explode_polygon:
  "r \<in> set (explode rows) \<Longrightarrow> \<exists>p. geometry r = Polygon p"
  by (auto simp: explode_def dest: get_parts_polygon)

lemma scan_row_length:
  "scan_row E c r g ir = Inr g' \<Longrightarrow> length g' = length g"
  by (auto simp: scan_row_def select_and_replace_def split: prod.splits option.splits sum.splits)

lemma scan_length:
  "scan E c r todo g = Inr g' \<Longrightarrow> length g' = length g"
proof (induction todo arbitrary: g)
  case Nil
  then show ?case by simp
next
  case (Cons ir todo)
  then show ?case by (auto split: sum.splits dest: scan_row_length)
qed

lemma pass_Inr:
  assumes "pass E c a r st = Inr st'"
  obtains scanned where
    "scan E c r (mask_shps_small st) (gdf_out st) = Inr scanned"
    "gdf_out st' = map (\<lambda>r. r\<lparr>changed := False\<rparr>) (explode (dissolve E scanned))"
    "small_shps E c a (gdf_out st') = Inr (mask_shps_small st')"
    "len_before st' = length scanned" "len_after st' = length (gdf_out st')"
  using assms by (auto simp: pass_def Let_def split: sum.splits)

lemma pass_polygon:
  assumes "pass E c a r st = Inr st'" "x \<in> set (gdf_out st')"
  shows "\<exists>p. geometry x = Polygon p"
proof -
  from assms(1) obtain scanned where
    "gdf_out st' = map (\<lambda>r. r\<lparr>changed := False\<rparr>) (explode (dissolve E scanned))"
    by (rule pass_Inr)
  with assms(2) obtain y where "y \<in> set (explode (dissolve E scanned))" "x = y\<lparr>changed := False\<rparr>"
    by auto
  then show ?thesis using explode_polygon[of y] by auto
qed

lemma initial_polygon:
  assumes "initial E gdf a = Inr st" "x \<in> set (gdf_out st)"
  shows "\<exists>p. geometry x = Polygon p"
proof -
  from assms obtain f where "f \<in> set (explode (features gdf))" "x = prepare f"
    by (auto simp: initial_def Let_def split: sum.splits)
  then show ?thesis using explode_polygon[of f] by (auto simp: prepare_def)
qed

lemma reachable_polygon:
  "reachable E gdf a r st \<Longrightarrow> x \<in> set (gdf_out st) \<Longrightarrow> \<exists>p. geometry x = Polygon p"
  by (induction rule: reachable.induct) (auto dest: initial_polygon pass_polygon)

lemma loop_reachable_aux:
  assumes "simplify_loop E c a r st = Some y"
  shows "\<forall>st'. y = Inr st' \<longrightarrow> reachable E gdf a r st \<longrightarrow> c = crs gdf
        \<longrightarrow> reachable E gdf a r st' \<and> \<not> continues st'"
proof (rule simplify_loop.raw_induct[where P = "\<lambda>E c a r st y. \<forall>st'. y = Inr st' \<longrightarrow> reachable E gdf a r st \<longrightarrow> c = crs gdf
        \<longrightarrow> reachable E gdf a r st' \<and> \<not> continues st'", OF _ assms])
  fix loop :: "('a, 'b, 'c, 'd) engine \<Rightarrow> 'c option \<Rightarrow> real \<Rightarrow> 'd option \<Rightarrow> 'a loop_state \<Rightarrow> (error + 'a loop_state) option"
  fix E c a r st y
  assume IH: "\<And>E c a r st y. loop E c a r st = Some y \<Longrightarrow>
     \<forall>st'. y = Inr st' \<longrightarrow> reachable E gdf a r st \<longrightarrow> c = crs gdf
        \<longrightarrow> reachable E gdf a r st' \<and> \<not> continues st'"
    and body: "(if continues st
      then (case pass E c a r st of Inl e \<Rightarrow> Some (Inl e) | Inr st' \<Rightarrow> loop E c a r st')
      else Some (Inr st)) = Some y"
  show "\<forall>st'. y = Inr st' \<longrightarrow> reachable E gdf a r st \<longrightarrow> c = crs gdf
        \<longrightarrow> reachable E gdf a r st' \<and> \<not> continues st'"
  proof (intro allI impI)
    fix st' assume y: "y = Inr st'" and re: "reachable E gdf a r st" and c: "c = crs gdf"
    show "reachable E gdf a r st' \<and> \<not> continues st'"
    proof (cases "continues st")
      case False
      with body y re show ?thesis by simp
    next
      case True
      with body y obtain st1 where p: "pass E c a r st = Inr st1" and l: "loop E c a r st1 = Some y"
        by (auto split: sum.splits)
      have "reachable E gdf a r st1"
        using re True p c by (auto intro: reachable.step)
      with IH[OF l] y c show ?thesis by blast
    qed
  qed
qed

lemma loop_reachable:
  assumes "simplify_loop E (crs gdf) a r st = Some (Inr st')"
    and "reachable E gdf a r st"
  shows "reachable E gdf a r st' \<and> \<not> continues st'"
  using loop_reachable_aux[OF assms(1), of gdf] assms(2) by simp

lemma reachable_mask:
  "reachable E gdf a r st \<Longrightarrow> small_shps E (crs gdf) a (gdf_out st) = Inr (mask_shps_small st)"
proof (induction rule: reachable.induct)
  case (start st)
  then show ?case by (auto simp: initial_def Let_def split: sum.splits)
next
  case (step st st')
  then show ?case by (auto elim: pass_Inr)
qed

lemma sort_key_const: "sort_key (\<lambda>x. c) xs = xs"
  by (induction xs) (simp_all add: insort_is_Cons)

lemma sort_values_set [simp]: "set (sort_values E rows) = set rows"
  by (simp add: sort_values_def Let_def)

lemma sort_values_length [simp]: "length (sort_values E rows) = length rows"
  by (simp add: sort_values_def Let_def)

lemma sort_values_distinct [simp]: "distinct (sort_values E rows) = distinct rows"
  by (simp add: sort_values_def Let_def)

lemma sort_values_Nil [simp]: "sort_values E [] = []"
  by (simp add: sort_values_def)

lemma sort_values_sorted: "sorted (map (\<lambda>(i, r). area E (geometry r)) (sort_values E rows))"
  by (simp add: sort_values_def Let_def)

lemma sort_values_no_rank:
  assumes "tie_rank E = (\<lambda>areas i. 0)"
  shows "sort_values E rows = sort_key (\<lambda>(i, r). area E (geometry r)) rows"
proof -
  have "(\<lambda>(i, r). tie_rank E (map (\<lambda>(i, r). (i, area E (geometry r))) rows) i)
      = (\<lambda>x :: nat \<times> ('a, cell) row. 0 :: nat)"
    by (simp add: assms fun_eq_iff)
  then show ?thesis by (simp add: sort_values_def Let_def sort_key_const)
qed

lemma small_shps_set:
  assumes "small_shps E (Some c) a g = Inr m"
  shows "set m = {(i, x). i < length g \<and> x = g ! i \<and> area_epsg31467 E c (geometry x) < a}"
    and "sorted (map (\<lambda>(i, x). area E (geometry x)) m)"
    and "distinct m"
  using assms by (auto simp: small_shps_def in_set_enumerate_eq distinct_enumerate sort_values_sorted)

lemma small_shps_None: "small_shps E None a g = Inl CrsError"
  by (simp add: small_shps_def)

section \<open>The example layer, step by step\<close>

lemma tri_initial: "initial triangle triangle_gdf 10 = Inr tri_start"
  by (simp add: initial_def explode_def prepare_def fillna_def small_shps_def sort_values_no_rank
      triangle_def triangle_gdf_def tri_area_def tri_start_def tri_row_def)

lemma tri_cand2: "candidates triangle (gdf_out tri_start) (tri_row 2 ''Z'' (Num 2) False)
   = [(0, tri_row 0 ''X'' (Str ''NAN'') False), (1, tri_row 1 ''Y'' (Num 1) False)]"
  by (simp add: candidates_def tri_start_def triangle_def tri_row_def)

lemma tri_scan2: "scan_row triangle (Some ()) None (gdf_out tri_start) (2, tri_row 2 ''Z'' (Num 2) False)
   = Inr [tri_row 0 ''X'' (Str ''NAN'') False, tri_row 1 ''Y'' (Num 1) False, tri_row 2 ''X'' (Num 2) True]"
  unfolding scan_row_def prod.case tri_cand2
  by (simp add: refresh_touch_def select_and_replace_def choose_neighbour_def border_choice_def border_scores_def
      shared_border_length_def tri_row_def triangle_def tri_shared_def tri_start_def doubleton_eq_iff)

lemma tri_cand1: "candidates triangle [tri_row 0 ''X'' (Str ''NAN'') False, tri_row 1 ''Y'' (Num 1) False, tri_row 2 ''X'' (Num 2) True] (tri_row 1 ''Y'' (Num 1) False)
   = [(0, tri_row 0 ''X'' (Str ''NAN'') False), (2, tri_row 2 ''X'' (Num 2) True)]"
  by (simp add: candidates_def tri_start_def triangle_def tri_row_def)

lemma tri_refresh: "refresh_touch triangle [(0, tri_row 0 ''X'' (Str ''NAN'') False), (2, tri_row 2 ''X'' (Num 2) True)]
  = Some [(0, tri_row 3 ''X'' (Str ''NAN'') False)]"
  by (simp add: refresh_touch_def explode_def dis_key_def tri_row_def triangle_def)

lemma tri_scan1: "scan_row triangle (Some ()) None [tri_row 0 ''X'' (Str ''NAN'') False, tri_row 1 ''Y'' (Num 1) False, tri_row 2 ''X'' (Num 2) True] (1, tri_row 1 ''Y'' (Num 1) False)
   = Inr tri_scanned"
  unfolding scan_row_def prod.case tri_cand1 tri_refresh
  by (simp add: select_and_replace_def choose_neighbour_def tri_row_def tri_scanned_def)

lemma tri_scan: "scan triangle (Some ()) None (mask_shps_small tri_start) (gdf_out tri_start)
   = Inr tri_scanned"
  using tri_scan2 tri_scan1 by (simp add: tri_start_def)

lemma tri_pass: "pass triangle (Some ()) 10 None tri_start = Inr tri_end"
  unfolding pass_def tri_scan
  by (simp add: tri_scanned_def explode_def dis_key_def tri_row_def triangle_def small_shps_def
      sort_values_no_rank tri_area_def tri_end_def)

lemma tri_loop: "simplify_loop triangle (Some ()) 10 None tri_start = Some (Inr tri_end)"
proof -
  have c: "continues tri_start" by (simp add: continues_def tri_start_def)
  have d: "\<not> continues tri_end" by (simp add: continues_def tri_end_def)
  show ?thesis
    by (subst simplify_loop.simps, simp add: c tri_pass, subst simplify_loop.simps, simp add: d)
qed

lemma tri_result: "simplify_shps triangle triangle_gdf 10 None = Some (Inr tri_out)"
  using tri_loop by (simp add: simplify_shps_def tri_initial, simp add: triangle_gdf_def tri_end_def finish_def restore_nan_def tri_row_def tri_out_def)

section \<open>The convergence loop\<close>

text \<open>
  C1. The \<open>while\<close> loop of \<open>simplify_shps\<close> goes on exactly when the undersized set is
  not empty and the two counts differ: when it does not go on the loop returns its state,
  when it does the next pass runs. After a pass the two counts are the number of
  features before the dissolve step and the number after the dissolve and explode steps,
  and the set tested is the undersized set of the new store. Before the first pass the
  counts are 3 and 2, so the loop is entered exactly when the undersized set is not empty.
\<close>

theorem loop_exit_condition:
  "(continues st \<longleftrightarrow> mask_shps_small st \<noteq> [] \<and> len_before st \<noteq> len_after st)
   \<and> (\<not> continues st \<longrightarrow> simplify_loop E c area_lim rst st = Some (Inr st))
   \<and> (continues st \<longrightarrow>
        simplify_loop E c area_lim rst st =
          (case pass E c area_lim rst st of
             Inl e \<Rightarrow> Some (Inl e)
           | Inr st' \<Rightarrow> simplify_loop E c area_lim rst st'))
   \<and> (pass E c area_lim rst st = Inr st' \<longrightarrow>
        (\<exists>scanned. scan E c rst (mask_shps_small st) (gdf_out st) = Inr scanned
           \<and> len_before st' = length scanned \<and> length scanned = length (gdf_out st)
           \<and> len_after st' = length (explode (dissolve E scanned))
           \<and> length (gdf_out st') = len_after st'
           \<and> small_shps E c area_lim (gdf_out st') = Inr (mask_shps_small st')))
   \<and> (initial E gdf_in area_lim = Inr st \<longrightarrow> (continues st \<longleftrightarrow> mask_shps_small st \<noteq> []))"
proof (intro conjI impI)
  show "continues st \<longleftrightarrow> mask_shps_small st \<noteq> [] \<and> len_before st \<noteq> len_after st"
    by (simp add: continues_def)
next
  assume "\<not> continues st"
  then show "simplify_loop E c area_lim rst st = Some (Inr st)"
    by (subst simplify_loop.simps) simp
next
  assume "continues st"
  then show "simplify_loop E c area_lim rst st =
          (case pass E c area_lim rst st of
             Inl e \<Rightarrow> Some (Inl e)
           | Inr st' \<Rightarrow> simplify_loop E c area_lim rst st')"
    by (subst simplify_loop.simps) simp
next
  assume p: "pass E c area_lim rst st = Inr st'"
  then obtain scanned where s: "scan E c rst (mask_shps_small st) (gdf_out st) = Inr scanned"
    and g: "gdf_out st' = map (\<lambda>r. r\<lparr>changed := False\<rparr>) (explode (dissolve E scanned))"
    and m: "small_shps E c area_lim (gdf_out st') = Inr (mask_shps_small st')"
    and b: "len_before st' = length scanned" and a: "len_after st' = length (gdf_out st')"
    by (rule pass_Inr)
  from s have "length scanned = length (gdf_out st)" by (rule scan_length)
  with s g m b a
  show "\<exists>scanned. scan E c rst (mask_shps_small st) (gdf_out st) = Inr scanned
           \<and> len_before st' = length scanned \<and> length scanned = length (gdf_out st)
           \<and> len_after st' = length (explode (dissolve E scanned))
           \<and> length (gdf_out st') = len_after st'
           \<and> small_shps E c area_lim (gdf_out st') = Inr (mask_shps_small st')"
    by simp
next
  assume "initial E gdf_in area_lim = Inr st"
  then have "len_before st = 3" "len_after st = 2"
    by (auto simp: initial_def Let_def split: sum.splits)
  then show "continues st \<longleftrightarrow> mask_shps_small st \<noteq> []"
    by (simp add: continues_def)
qed

theorem loop_exit_condition_witness:
  "continues tri_start \<and> \<not> continues tri_end
   \<and> simplify_loop triangle (Some ()) 10 None tri_end = Some (Inr tri_end)
   \<and> simplify_loop triangle (Some ()) 10 None tri_start
       = simplify_loop triangle (Some ()) 10 None tri_end
   \<and> len_before tri_end = 3 \<and> len_after tri_end = 1 \<and> mask_shps_small tri_end = []"
  using loop_exit_condition[of tri_start triangle "Some ()" 10 None tri_end triangle_gdf]
    loop_exit_condition[of tri_end triangle "Some ()" 10 None tri_end triangle_gdf]
    tri_pass tri_initial
  by (simp add: tri_start_def tri_end_def)

text \<open>
  C10. The undersized set is taken in EPSG:31467. A layer with no coordinate reference
  system makes \<open>simplify_shps\<close> raise, whatever its features and the threshold are, and
  nothing is returned. Otherwise, at every test of the loop, the undersized set holds
  exactly the rows of the store whose area after reprojection to EPSG:31467 is below
  \<open>area_lim\<close>.
\<close>

theorem threshold_in_epsg31467:
  "(crs gdf_in = None \<longrightarrow> simplify_shps E gdf_in area_lim comp_raster = Some (Inl CrsError))
   \<and> (reachable E gdf_in area_lim comp_raster st \<longrightarrow>
        (\<exists>c. crs gdf_in = Some c
           \<and> set (mask_shps_small st) =
               {(i, x). i < length (gdf_out st) \<and> x = gdf_out st ! i
                  \<and> area_epsg31467 E c (geometry x) < area_lim}))"
proof (intro conjI impI)
  assume "crs gdf_in = None"
  then show "simplify_shps E gdf_in area_lim comp_raster = Some (Inl CrsError)"
    by (simp add: simplify_shps_def initial_def small_shps_None)
next
  assume "reachable E gdf_in area_lim comp_raster st"
  then have m: "small_shps E (crs gdf_in) area_lim (gdf_out st) = Inr (mask_shps_small st)"
    by (rule reachable_mask)
  then obtain c where c: "crs gdf_in = Some c"
    by (cases "crs gdf_in") (auto simp: small_shps_None)
  with m have "set (mask_shps_small st) =
     {(i, x). i < length (gdf_out st) \<and> x = gdf_out st ! i \<and> area_epsg31467 E c (geometry x) < area_lim}"
    using small_shps_set(1)[of E c area_lim "gdf_out st" "mask_shps_small st"] by simp
  with c show "\<exists>c. crs gdf_in = Some c
           \<and> set (mask_shps_small st) =
               {(i, x). i < length (gdf_out st) \<and> x = gdf_out st ! i
                  \<and> area_epsg31467 E c (geometry x) < area_lim}"
    by simp
qed

theorem threshold_in_epsg31467_witness:
  "simplify_shps triangle (triangle_gdf\<lparr>crs := None\<rparr>) 100 None = Some (Inl CrsError)
   \<and> reachable triangle triangle_gdf 10 None tri_start
   \<and> set (mask_shps_small tri_start) =
       {(i, x). i < length (gdf_out tri_start) \<and> x = gdf_out tri_start ! i
          \<and> area_epsg31467 triangle () (geometry x) < 10}"
  using threshold_in_epsg31467[of "triangle_gdf\<lparr>crs := None\<rparr>" triangle 100 None tri_start]
    threshold_in_epsg31467[of triangle_gdf triangle 10 None tri_start]
    reachable.start[OF tri_initial, of None]
  by simp

text \<open>
  C8. Whenever \<open>simplify_shps\<close> returns a layer, every feature of it is a single
  \<open>Polygon\<close>: no \<open>MultiPolygon\<close> is returned, whatever the input and whatever the
  geometry library computes.
\<close>

theorem no_multipart_output:
  assumes "simplify_shps E gdf_in area_lim comp_raster = Some (Inr out)"
  shows "\<forall>f \<in> set (features out). \<exists>p. geometry f = Polygon p"
proof
  fix f assume f: "f \<in> set (features out)"
  from assms obtain st st' where
    i: "initial E gdf_in area_lim = Inr st"
    and l: "simplify_loop E (crs gdf_in) area_lim comp_raster st = Some (Inr st')"
    and o: "out = \<lparr>crs = crs gdf_in, features = map finish (gdf_out st')\<rparr>"
    by (auto simp: simplify_shps_def split: sum.splits option.splits)
  have "reachable E gdf_in area_lim comp_raster st'"
    using loop_reachable[OF l reachable.start[OF i]] by simp
  moreover from f o obtain x where "x \<in> set (gdf_out st')" "f = finish x" by auto
  ultimately show "\<exists>p. geometry f = Polygon p"
    using reachable_polygon[of E gdf_in area_lim comp_raster st' x] by (auto simp: finish_def)
qed

theorem no_multipart_output_witness:
  "simplify_shps triangle triangle_gdf 10 None = Some (Inr tri_out)
   \<and> list_all (\<lambda>f. \<exists>p. geometry f = Polygon p) (features tri_out)"
  using no_multipart_output[OF tri_result] tri_result by (simp add: list_all_iff)

section \<open>The order of a pass\<close>

lemma geo_initial: "initial geo geo_gdf 1000 = Inr geo_start"
  by (simp add: initial_def explode_def prepare_def fillna_def small_shps_def sort_values_no_rank
      geo_def geo_gdf_def geo_area_def geo_area_epsg31467_def geo_start_def geo_row_def)

lemma geo_scan1: "scan_row geo (Some ()) None [geo_row 0 ''A'' False, geo_row 1 ''B'' False] (1, geo_row 1 ''B'' False)
   = Inr [geo_row 0 ''A'' False, geo_row 1 ''A'' True]"
  by (simp add: scan_row_def candidates_def refresh_touch_def select_and_replace_def choose_neighbour_def
      geo_def geo_row_def)

lemma geo_scan0: "scan_row geo (Some ()) None [geo_row 0 ''A'' False, geo_row 1 ''B'' False] (0, geo_row 0 ''A'' False)
   = Inr [geo_row 0 ''B'' True, geo_row 1 ''B'' False]"
  by (simp add: scan_row_def candidates_def refresh_touch_def select_and_replace_def choose_neighbour_def
      geo_def geo_row_def)

lemma geo_skip0: "scan_row geo (Some ()) None [geo_row 0 ''A'' False, geo_row 1 ''A'' True] (0, geo_row 0 ''A'' False)
   = Inr [geo_row 0 ''A'' False, geo_row 1 ''A'' True]"
  by (simp add: scan_row_def candidates_def refresh_touch_def geo_def geo_row_def)

lemma geo_skip1: "scan_row geo (Some ()) None [geo_row 0 ''B'' True, geo_row 1 ''B'' False] (1, geo_row 1 ''B'' False)
   = Inr [geo_row 0 ''B'' True, geo_row 1 ''B'' False]"
  by (simp add: scan_row_def candidates_def refresh_touch_def geo_def geo_row_def)

lemma geo_scan: "scan geo (Some ()) None (mask_shps_small geo_start) (gdf_out geo_start)
   = Inr [geo_row 0 ''A'' False, geo_row 1 ''A'' True]"
  by (simp del: One_nat_def add: geo_start_def geo_scan1 geo_skip0)

lemma geo_scan_rev: "scan geo (Some ()) None (rev (mask_shps_small geo_start)) (gdf_out geo_start)
   = Inr [geo_row 0 ''B'' True, geo_row 1 ''B'' False]"
  by (simp del: One_nat_def add: geo_start_def geo_scan0 geo_skip1)

lemma geo_pass: "pass geo (Some ()) 1000 None geo_start = Inr (geo_end ''A'')"
  unfolding pass_def geo_scan
  by (simp add: explode_def dis_key_def geo_row_def geo_def small_shps_def sort_values_no_rank
      geo_area_epsg31467_def geo_end_def)

lemma geo_pass_rev:
  "pass geo (Some ()) 1000 None (geo_start\<lparr>mask_shps_small := rev (mask_shps_small geo_start)\<rparr>)
     = Inr (geo_end ''B'')"
proof -
  have "scan geo (Some ()) None
      (mask_shps_small (geo_start\<lparr>mask_shps_small := rev (mask_shps_small geo_start)\<rparr>))
      (gdf_out (geo_start\<lparr>mask_shps_small := rev (mask_shps_small geo_start)\<rparr>))
      = Inr [geo_row 0 ''B'' True, geo_row 1 ''B'' False]"
    using geo_scan_rev by simp
  then show ?thesis
    unfolding pass_def
    by (simp add: explode_def dis_key_def geo_row_def geo_def small_shps_def sort_values_no_rank
      geo_area_epsg31467_def geo_end_def)
qed

lemma geo_loop: "simplify_loop geo (Some ()) 1000 None geo_start = Some (Inr (geo_end ''A''))"
proof -
  have c: "continues geo_start" by (simp add: continues_def geo_start_def)
  have d: "\<not> continues (geo_end ''A'')" by (simp add: continues_def geo_end_def)
  show ?thesis
    by (subst simplify_loop.simps, simp add: c geo_pass, subst simplify_loop.simps, simp add: d)
qed

text \<open>
  C7. The layer \<open>geo_gdf\<close> is in a geographic CRS and \<open>area_lim\<close> is 1000. Both polygons
  are below the threshold, which is compared with the area in EPSG:31467 (799 for label
  0, 800 for label 1). Line 219 orders the undersized rows by \<open>.area\<close> in the layer's own
  CRS (101 for label 0, 100 for label 1): the pass handles label 1 before label 0, the
  greater area first, and the merged polygon gets category A. Handled smallest first,
  label 0 before label 1, the same store gives category B.
\<close>

theorem sorted_by_layer_area:
  "initial geo geo_gdf 1000 = Inr geo_start
   \<and> map fst (mask_shps_small geo_start) = [1, 0]
   \<and> map (\<lambda>(i, r). area_epsg31467 geo () (geometry r)) (mask_shps_small geo_start) = [800, 799]
   \<and> map (\<lambda>(i, r). area geo (geometry r)) (mask_shps_small geo_start) = [100, 101]
   \<and> pass geo (Some ()) 1000 None geo_start = Inr (geo_end ''A'')
   \<and> pass geo (Some ()) 1000 None (geo_start\<lparr>mask_shps_small := rev (mask_shps_small geo_start)\<rparr>)
       = Inr (geo_end ''B'')
   \<and> simplify_shps geo geo_gdf 1000 None = Some (Inr (geo_out ''A''))"
proof -
  have m: "map fst (mask_shps_small geo_start) = [1, 0]"
    "map (\<lambda>(i, r). area_epsg31467 geo () (geometry r)) (mask_shps_small geo_start) = [800, 799]"
    "map (\<lambda>(i, r). area geo (geometry r)) (mask_shps_small geo_start) = [100, 101]"
    by (simp_all add: geo_start_def geo_row_def geo_def geo_area_def geo_area_epsg31467_def)
  have r: "simplify_shps geo geo_gdf 1000 None = Some (Inr (geo_out ''A''))"
    using geo_loop
    by (simp add: simplify_shps_def geo_initial,
        simp add: geo_gdf_def geo_end_def finish_def restore_nan_def geo_row_def geo_out_def)
  from geo_initial m geo_pass geo_pass_rev r show ?thesis by (intro conjI)
qed

section \<open>Refreshing the candidates\<close>

lemma dis_key_geometry: "dis_key (r\<lparr>geometry := g\<rparr>) = dis_key r"
  by (simp add: dis_key_def)

lemma dissolve_key:
  "map geometry (filter (\<lambda>s. dis_key s = k) (dissolve E rs)) =
     (if filter (\<lambda>s. dis_key s = k) rs = [] then []
      else [unary_union E (map geometry (filter (\<lambda>s. dis_key s = k) rs))])"
proof (induction E rs rule: dissolve.induct)
  case (1 E)
  show ?case by simp
next
  case (2 E r rs)
  show ?case
  proof (cases "dis_key r = k")
    case True
    have "filter (\<lambda>s. dis_key s = k) (filter (\<lambda>s. dis_key s \<noteq> dis_key r) rs) = []"
      using True by (simp add: filter_empty_conv)
    with 2 True show ?thesis by (simp add: dis_key_geometry)
  next
    case False
    have "filter (\<lambda>s. dis_key s = k) (filter (\<lambda>s. dis_key s \<noteq> dis_key r) rs)
        = filter (\<lambda>s. dis_key s = k) rs"
      using False by (auto intro: filter_cong)
    with 2 False show ?thesis by (simp add: dis_key_geometry)
  qed
qed

lemma dissolve_first:
  "r \<in> set (dissolve E rs) \<Longrightarrow>
     \<exists>g. r = (hd (filter (\<lambda>s. dis_key s = dis_key r) rs))\<lparr>geometry := g\<rparr>"
proof (induction E rs rule: dissolve.induct)
  case (1 E)
  then show ?case by simp
next
  case (2 E r' rs)
  let ?u = "unary_union E (geometry r' # map geometry (filter (\<lambda>s. dis_key s = dis_key r') rs))"
  from "2.prems" consider "r = r'\<lparr>geometry := ?u\<rparr>"
    | "r \<in> set (dissolve E (filter (\<lambda>s. dis_key s \<noteq> dis_key r') rs))"
    by auto
  then show ?case
  proof cases
    case 1
    then show ?thesis by (auto simp: dis_key_geometry)
  next
    case 2
    from "2.IH"[OF this] obtain g where
      g: "r = (hd (filter (\<lambda>s. dis_key s = dis_key r) (filter (\<lambda>s. dis_key s \<noteq> dis_key r') rs)))\<lparr>geometry := g\<rparr>"
      by blast
    from 2 have "filter (\<lambda>s. dis_key s = dis_key r) (dissolve E (filter (\<lambda>s. dis_key s \<noteq> dis_key r') rs)) \<noteq> []"
      by (auto simp: filter_empty_conv)
    then have "map geometry (filter (\<lambda>s. dis_key s = dis_key r) (dissolve E (filter (\<lambda>s. dis_key s \<noteq> dis_key r') rs))) \<noteq> []"
      by simp
    then have ne: "filter (\<lambda>s. dis_key s = dis_key r) (filter (\<lambda>s. dis_key s \<noteq> dis_key r') rs) \<noteq> []"
      unfolding dissolve_key by (simp split: if_splits)
    then have k: "dis_key r \<noteq> dis_key r'" by (auto simp: filter_empty_conv)
    then have "filter (\<lambda>s. dis_key s = dis_key r) (filter (\<lambda>s. dis_key s \<noteq> dis_key r') rs)
        = filter (\<lambda>s. dis_key s = dis_key r) rs"
      by (auto intro: filter_cong)
    with g k show ?thesis by auto
  qed
qed

lemma explode_key:
  "filter (\<lambda>s. dis_key s = k) (explode rs) = explode (filter (\<lambda>s. dis_key s = k) rs)"
  by (induction rs) (auto simp: explode_def dis_key_geometry filter_empty_conv)

lemma explode_geometry:
  "map geometry (explode rs) = concat (map get_parts (map geometry rs))"
  by (induction rs) (auto simp: explode_def comp_def)

lemma explode_first:
  "r \<in> set (explode rs) \<Longrightarrow> \<exists>s \<in> set rs. \<exists>g. r = s\<lparr>geometry := g\<rparr>"
  by (auto simp: explode_def)

lemma refreshed_key:
  "map geometry (filter (\<lambda>s. dis_key s = k) (explode (dissolve E rs))) =
     (if filter (\<lambda>s. dis_key s = k) rs = [] then []
      else get_parts (unary_union E (map geometry (filter (\<lambda>s. dis_key s = k) rs))))"
  unfolding explode_key explode_geometry dissolve_key by simp

lemma refreshed_first:
  assumes "r \<in> set (explode (dissolve E rs))"
  shows "\<exists>g. r = (hd (filter (\<lambda>s. dis_key s = dis_key r) rs))\<lparr>geometry := g\<rparr>"
proof -
  from explode_first[OF assms] obtain s g where s: "s \<in> set (dissolve E rs)" and r: "r = s\<lparr>geometry := g\<rparr>"
    by blast
  define h where "h = hd (filter (\<lambda>t. dis_key t = dis_key s) rs)"
  from dissolve_first[OF s] obtain g' where s': "s = h\<lparr>geometry := g'\<rparr>"
    unfolding h_def by blast
  have k: "dis_key r = dis_key s" using r by (simp add: dis_key_geometry)
  have "r = h\<lparr>geometry := g\<rparr>" unfolding r by (subst s') simp
  then have "r = (hd (filter (\<lambda>t. dis_key t = dis_key r) rs))\<lparr>geometry := g\<rparr>"
    unfolding k h_def .
  then show ?thesis by blast
qed

lemma get_parts_nonempty: "get_parts g \<noteq> []"
  by (cases g) simp_all

lemma refreshed_nonempty:
  assumes "rs \<noteq> []"
  shows "explode (dissolve E rs) \<noteq> []"
proof
  assume e: "explode (dissolve E rs) = []"
  from assms obtain r rs' where rs: "rs = r # rs'" by (cases rs) auto
  have "map geometry (filter (\<lambda>s. dis_key s = dis_key r) (explode (dissolve E rs))) \<noteq> []"
    unfolding refreshed_key by (simp add: rs get_parts_nonempty)
  with e show False by simp
qed

text \<open>
  C6. In one turn of the scanning loop for the sliver \<open>row\<close> with label \<open>i\<close>, \<open>touch\<close>
  being the filtered candidates: if one of them has its \<open>changed\<close> flag set, the selection
  works on the refreshed candidates \<open>fresh\<close>, labelled from 0. These are simple polygons
  only; for every dissolve key, the refreshed candidates of that key are the parts of the
  union of all the candidates of that key, and there is none where no candidate has the
  key; the other columns of a refreshed candidate are those of the first candidate of its
  key. If no candidate is changed and there is one, the selection works on the candidates
  as they are. If there is no candidate after filtering, the store is left as it is and
  nothing is raised.
\<close>

theorem stale_candidates_refreshed:
  assumes "touch = candidates E gdf row"
    and "fresh = explode (dissolve E (map snd touch))"
  shows "(list_ex (\<lambda>(j, r). changed r) touch \<longrightarrow>
            scan_row E crs_in comp_raster gdf (i, row)
              = select_and_replace E crs_in comp_raster gdf i row (enumerate 0 fresh)
            \<and> fresh \<noteq> []
            \<and> (\<forall>r \<in> set fresh. \<exists>p. geometry r = Polygon p)
            \<and> (\<forall>k. map geometry (filter (\<lambda>r. dis_key r = k) fresh) =
                  (if filter (\<lambda>r. dis_key r = k) (map snd touch) = [] then []
                   else get_parts (unary_union E
                          (map geometry (filter (\<lambda>r. dis_key r = k) (map snd touch))))))
            \<and> (\<forall>r \<in> set fresh.
                  \<exists>g. r = (hd (filter (\<lambda>s. dis_key s = dis_key r) (map snd touch)))\<lparr>geometry := g\<rparr>))
     \<and> (\<not> list_ex (\<lambda>(j, r). changed r) touch \<and> touch \<noteq> [] \<longrightarrow>
            scan_row E crs_in comp_raster gdf (i, row)
              = select_and_replace E crs_in comp_raster gdf i row touch)
     \<and> (touch = [] \<longrightarrow> scan_row E crs_in comp_raster gdf (i, row) = Inr gdf)"
proof (intro conjI impI ballI allI)
  assume c: "list_ex (\<lambda>(j, r). changed r) touch"
  then show "scan_row E crs_in comp_raster gdf (i, row)
      = select_and_replace E crs_in comp_raster gdf i row (enumerate 0 fresh)"
    by (simp add: scan_row_def refresh_touch_def assms[symmetric])
  from c have "map snd touch \<noteq> []" by (cases touch) auto
  then show "fresh \<noteq> []" unfolding assms(2) by (rule refreshed_nonempty)
next
  fix r
  assume "r \<in> set fresh"
  then show "\<exists>p. geometry r = Polygon p" unfolding assms(2) by (rule explode_polygon)
next
  fix k
  show "map geometry (filter (\<lambda>r. dis_key r = k) fresh) =
      (if filter (\<lambda>r. dis_key r = k) (map snd touch) = [] then []
       else get_parts (unary_union E (map geometry (filter (\<lambda>r. dis_key r = k) (map snd touch)))))"
    unfolding assms(2) by (rule refreshed_key)
next
  fix r
  assume "r \<in> set fresh"
  then show "\<exists>g. r = (hd (filter (\<lambda>s. dis_key s = dis_key r) (map snd touch)))\<lparr>geometry := g\<rparr>"
    unfolding assms(2) by (rule refreshed_first)
next
  assume "\<not> list_ex (\<lambda>(j, r). changed r) touch \<and> touch \<noteq> []"
  then show "scan_row E crs_in comp_raster gdf (i, row)
      = select_and_replace E crs_in comp_raster gdf i row touch"
    by (simp add: scan_row_def refresh_touch_def assms(1)[symmetric])
next
  assume "touch = []"
  then show "scan_row E crs_in comp_raster gdf (i, row) = Inr gdf"
    by (simp add: scan_row_def refresh_touch_def assms(1)[symmetric])
qed

theorem stale_candidates_refreshed_witness:
  "list_ex (\<lambda>(j, r). changed r)
     (candidates triangle [tri_row 0 ''X'' (Str ''NAN'') False, tri_row 1 ''Y'' (Num 1) False,
        tri_row 2 ''X'' (Num 2) True] (tri_row 1 ''Y'' (Num 1) False))
   \<and> explode (dissolve triangle (map snd
        (candidates triangle [tri_row 0 ''X'' (Str ''NAN'') False, tri_row 1 ''Y'' (Num 1) False,
           tri_row 2 ''X'' (Num 2) True] (tri_row 1 ''Y'' (Num 1) False))))
      = [tri_row 3 ''X'' (Str ''NAN'') False]
   \<and> scan_row triangle (Some ()) None [tri_row 0 ''X'' (Str ''NAN'') False,
        tri_row 1 ''Y'' (Num 1) False, tri_row 2 ''X'' (Num 2) True] (1, tri_row 1 ''Y'' (Num 1) False)
      = select_and_replace triangle (Some ()) None [tri_row 0 ''X'' (Str ''NAN'') False,
          tri_row 1 ''Y'' (Num 1) False, tri_row 2 ''X'' (Num 2) True] 1 (tri_row 1 ''Y'' (Num 1) False)
          [(0, tri_row 3 ''X'' (Str ''NAN'') False)]
   \<and> map geometry (filter (\<lambda>r. dis_key r = [Str ''X'']) [tri_row 3 ''X'' (Str ''NAN'') False])
      = get_parts (unary_union triangle [Polygon 0, Polygon 2])
   \<and> candidates triangle (gdf_out tri_end) (tri_row 4 ''X'' (Str ''NAN'') False) = []
   \<and> scan_row triangle (Some ()) None (gdf_out tri_end) (0, tri_row 4 ''X'' (Str ''NAN'') False)
      = Inr (gdf_out tri_end)"
proof -
  let ?g = "[tri_row 0 ''X'' (Str ''NAN'') False, tri_row 1 ''Y'' (Num 1) False,
        tri_row 2 ''X'' (Num 2) True]"
  let ?row = "tri_row 1 ''Y'' (Num 1) False"
  let ?t = "[(0 :: nat, tri_row 0 ''X'' (Str ''NAN'') False), (2, tri_row 2 ''X'' (Num 2) True)]"
  let ?f = "[tri_row 3 ''X'' (Str ''NAN'') False]"
  have e: "[] = candidates triangle (gdf_out tri_end) (tri_row 4 ''X'' (Str ''NAN'') False)"
    by (simp add: candidates_def tri_end_def triangle_def tri_row_def)
  have t: "?t = candidates triangle ?g ?row"
    by (simp only: tri_cand1)
  have d: "?f = explode (dissolve triangle (map snd ?t))"
    by (simp add: explode_def dis_key_def tri_row_def triangle_def)
  have ch: "list_ex (\<lambda>(j, r). changed r) ?t"
    by (simp add: tri_row_def)
  have k: "filter (\<lambda>r. dis_key r = [Str ''X'']) (map snd ?t) \<noteq> []"
    "map geometry (filter (\<lambda>r. dis_key r = [Str ''X'']) (map snd ?t)) = [Polygon 0, Polygon 2]"
    by (simp_all add: dis_key_def tri_row_def)
  note s = stale_candidates_refreshed[where crs_in = "Some ()" and comp_raster = None, OF t d,
      where i = 1, THEN conjunct1, THEN mp, OF ch]
  have s1: "scan_row triangle (Some ()) None ?g (1, ?row)
      = select_and_replace triangle (Some ()) None ?g 1 ?row [(0, tri_row 3 ''X'' (Str ''NAN'') False)]"
    using s by simp
  from s have "\<forall>k. map geometry (filter (\<lambda>r. dis_key r = k) ?f) =
      (if filter (\<lambda>r. dis_key r = k) (map snd ?t) = [] then []
       else get_parts (unary_union triangle (map geometry (filter (\<lambda>r. dis_key r = k) (map snd ?t)))))"
    by blast
  then have "map geometry (filter (\<lambda>r. dis_key r = [Str ''X'']) ?f) =
      (if filter (\<lambda>r. dis_key r = [Str ''X'']) (map snd ?t) = [] then []
       else get_parts (unary_union triangle (map geometry (filter (\<lambda>r. dis_key r = [Str ''X'']) (map snd ?t)))))"
    by (rule spec)
  then have s3: "map geometry (filter (\<lambda>r. dis_key r = [Str ''X'']) ?f)
      = get_parts (unary_union triangle [Polygon 0, Polygon 2])"
    unfolding k(2) using k(1) by (simp only: if_False)
  have s2: "scan_row triangle (Some ()) None (gdf_out tri_end) (0, tri_row 4 ''X'' (Str ''NAN'') False)
      = Inr (gdf_out tri_end)"
    using stale_candidates_refreshed[where crs_in = "Some ()" and comp_raster = None and i = 0, OF e refl,
        THEN conjunct2, THEN conjunct2, THEN mp, OF refl] .
  from ch s1 s3 s2 show ?thesis unfolding t[symmetric] d[symmetric] e[symmetric] by (intro conjI) simp_all
qed

section \<open>Selecting the neighbour\<close>

lemma nbs_candidates12:
  "candidates nbs [nb_row 0 ''S'', nb_row 1 ''A'', nb_row 2 ''B''] (nb_row 0 ''S'')
     = [(1, nb_row 1 ''A''), (2, nb_row 2 ''B'')]"
  by (simp add: candidates_def nbs_def nb_row_def)

lemma nbs_raster12:
  "raster_choice nbs () (Some ()) (Polygon 0) [(1, nb_row 1 ''A''), (2, nb_row 2 ''B'')]
     = Inr (Some 1, [(1, nb_row 1 ''A''), (2, nb_row 2 ''B'')])"
  by (auto simp: raster_choice_def nbs_def nb_row_def)

lemma nbs_border12:
  "border_scores nbs (Polygon 0) [(1, nb_row 1 ''A''), (2, nb_row 2 ''B'')] = Inr [(1, 1), (2, 2)]"
  by (simp add: border_scores_def shared_border_length_def nbs_def nb_row_def nbs_shared_def)

text \<open>
  C3. With a raster, the candidates \<open>1\<close> and \<open>2\<close> are both 0.5 away from the sliver's
  mean, and \<open>2\<close> has the longer shared border (2 against 1). Line 267 looks for 0.5
  among the labels of the other candidates, does not find it, and keeps the first of the
  two: the sliver gets the category A of candidate \<open>1\<close>, where the shared-border policy
  on the tied candidates gives candidate \<open>2\<close>.
\<close>

theorem raster_tie_keeps_first:
  "scan_row nbs (Some ()) (Some ()) [nb_row 0 ''S'', nb_row 1 ''A'', nb_row 2 ''B''] (0, nb_row 0 ''S'')
     = Inr [(nb_row 0 ''A'')\<lparr>changed := True\<rparr>, nb_row 1 ''A'', nb_row 2 ''B'']
   \<and> border_choice nbs (Polygon 0) [(1, nb_row 1 ''A''), (2, nb_row 2 ''B'')] = Inr 2"
proof -
  have "choose_neighbour nbs (Some ()) (Some ()) (Polygon 0) [(1, nb_row 1 ''A''), (2, nb_row 2 ''B'')]
      = Inr (1, [(1, nb_row 1 ''A''), (2, nb_row 2 ''B'')])"
    by (simp del: One_nat_def add: choose_neighbour_def nbs_raster12)
  then have "scan_row nbs (Some ()) (Some ()) [nb_row 0 ''S'', nb_row 1 ''A'', nb_row 2 ''B'']
      (0, nb_row 0 ''S'') = Inr [(nb_row 0 ''A'')\<lparr>changed := True\<rparr>, nb_row 1 ''A'', nb_row 2 ''B'']"
    unfolding scan_row_def prod.case nbs_candidates12
    by (simp del: One_nat_def add: refresh_touch_def select_and_replace_def nb_row_def)
  moreover have "border_choice nbs (Polygon 0) [(1, nb_row 1 ''A''), (2, nb_row 2 ''B'')] = Inr 2"
    by (simp del: One_nat_def add: border_choice_def nbs_border12)
  ultimately show ?thesis by simp
qed

section \<open>The score of a neighbour with several rings\<close>

lemma nbs_candidates34:
  "candidates nbs [nb_row 0 ''S'', nb_row 3 ''A'', nb_row 4 ''B''] (nb_row 0 ''S'')
     = [(1, nb_row 3 ''A''), (2, nb_row 4 ''B'')]"
  by (simp add: candidates_def nbs_def nb_row_def)

lemma nbs_border34:
  "border_scores nbs (Polygon 0) [(1, nb_row 3 ''A''), (2, nb_row 4 ''B'')] = Inr [(1, 0), (2, 5)]"
  by (simp add: border_scores_def shared_border_length_def nbs_def nb_row_def nbs_shared_def)

text \<open>
  C5. Two rings of candidate \<open>3\<close> meet the sliver. The sliver shares 10 with the outer
  ring of polygon \<open>3\<close> and nothing with the ring of its hole, which it meets in a point;
  the greatest over the rings is 10. Lines 277 to 280 keep the last ring that meets the
  sliver, the ring of the hole: the score is 0, and candidate \<open>4\<close>, which shares 5, is
  selected in place of the neighbour with the longest common border. The sliver gets
  category B.
\<close>

theorem neighbour_ring_score:
  "shared_border_length nbs (Polygon 0) (Polygon 3) = Inr 0
   \<and> spec_border_score nbs (Polygon 0) (Polygon 3) = 10
   \<and> shared_border_length nbs (Polygon 0) (Polygon 4) = Inr 5
   \<and> spec_border_score nbs (Polygon 0) (Polygon 4) = 5
   \<and> border_choice nbs (Polygon 0) [(1, nb_row 3 ''A''), (2, nb_row 4 ''B'')] = Inr 2
   \<and> scan_row nbs (Some ()) None [nb_row 0 ''S'', nb_row 3 ''A'', nb_row 4 ''B''] (0, nb_row 0 ''S'')
       = Inr [(nb_row 0 ''B'')\<lparr>changed := True\<rparr>, nb_row 3 ''A'', nb_row 4 ''B'']"
proof -
  have 1: "shared_border_length nbs (Polygon 0) (Polygon 3) = Inr 0"
    "shared_border_length nbs (Polygon 0) (Polygon 4) = Inr 5"
    by (simp_all add: shared_border_length_def nbs_def nbs_shared_def)
  have 2: "spec_border_score nbs (Polygon 0) (Polygon 3) = 10"
    "spec_border_score nbs (Polygon 0) (Polygon 4) = 5"
    by (simp_all add: spec_border_score_def nbs_def nbs_shared_def)
  have 3: "border_choice nbs (Polygon 0) [(1, nb_row 3 ''A''), (2, nb_row 4 ''B'')] = Inr 2"
    by (simp del: One_nat_def add: border_choice_def nbs_border34)
  then have "choose_neighbour nbs (Some ()) None (Polygon 0) [(1, nb_row 3 ''A''), (2, nb_row 4 ''B'')]
      = Inr (2, [(1, nb_row 3 ''A''), (2, nb_row 4 ''B'')])"
    by (simp del: One_nat_def add: choose_neighbour_def)
  then have 4: "scan_row nbs (Some ()) None [nb_row 0 ''S'', nb_row 3 ''A'', nb_row 4 ''B'']
      (0, nb_row 0 ''S'') = Inr [(nb_row 0 ''B'')\<lparr>changed := True\<rparr>, nb_row 3 ''A'', nb_row 4 ''B'']"
    unfolding scan_row_def prod.case nbs_candidates34
    by (simp del: One_nat_def add: refresh_touch_def select_and_replace_def nb_row_def)
  from 1 2 3 4 show ?thesis by (intro conjI)
qed

section \<open>The four quarters\<close>

lemma label_mem:
  assumes "distinct (map fst rows)" "(l, f) \<in> set rows" "set xs \<subseteq> set rows"
  shows "l \<in> fst ` set xs \<longleftrightarrow> (l, f) \<in> set xs"
proof
  assume "l \<in> fst ` set xs"
  then obtain f' where f': "(l, f') \<in> set xs" by auto
  with assms(3) have "(l, f') \<in> set rows" by auto
  with assms(1,2) have "f' = f" by (metis eq_key_imp_eq_value)
  with f' show "(l, f) \<in> set xs" by simp
next
  assume "(l, f) \<in> set xs"
  then show "l \<in> fst ` set xs" by force
qed

lemma part_filter:
  assumes "distinct (map fst rows)"
  shows "(l, f) \<in> set (filter (\<lambda>(i, f). i \<notin> set (map fst (filter S (filter B (filter Q rows))))) (filter Q rows))
     \<longleftrightarrow> (l, f) \<in> set rows \<and> Q (l, f) \<and> \<not> (B (l, f) \<and> S (l, f))"
proof (cases "(l, f) \<in> set rows")
  case True
  have "l \<in> fst ` set (filter S (filter B (filter Q rows))) \<longleftrightarrow> (l, f) \<in> set (filter S (filter B (filter Q rows)))"
    by (rule label_mem[OF assms True]) auto
  then show ?thesis using True by auto
next
  case False
  then show ?thesis by auto
qed

lemma split_at_parts_nth:
  assumes "k < 4"
  shows "parts (split_at E mx my d a rows) ! k =
     filter (\<lambda>(i, f). i \<notin> set (map fst
         (filter (\<lambda>(i, f). area E (geometry f) < a)
            (filter (\<lambda>(i, f). in_border E mx my d k (geometry f))
               (filter (\<lambda>(i, f). in_quarter E mx my k (geometry f)) rows)))))
       (filter (\<lambda>(i, f). in_quarter E mx my k (geometry f)) rows)"
proof -
  from assms(1) have "k = 0 \<or> k = 1 \<or> k = 2 \<or> k = 3" by arith
  then show ?thesis
    by (elim disjE) (simp_all add: split_at_def Let_def)
qed

lemma split_at_part:
  assumes "k < 4" "distinct (map fst rows)"
  shows "(l, f) \<in> set (parts (split_at E mx my d a rows) ! k) \<longleftrightarrow>
     (l, f) \<in> set rows \<and> in_quarter E mx my k (geometry f)
     \<and> \<not> (in_border E mx my d k (geometry f) \<and> area E (geometry f) < a)"
  unfolding split_at_parts_nth[OF assms(1)]
  by (simp only: part_filter[OF assms(2)] prod.case)

lemma split_at_subset:
  assumes "k < 4"
  shows "set (parts (split_at E mx my d a rows) ! k) \<subseteq> set rows"
proof -
  from assms(1) have "k = 0 \<or> k = 1 \<or> k = 2 \<or> k = 3" by arith
  then show ?thesis
    by (elim disjE) (auto simp: split_at_def Let_def)
qed

lemma split_at_excluded:
  assumes "distinct (map fst rows)"
  shows "(l, f) \<in> set (excluded_shps (split_at E mx my d a rows)) \<longleftrightarrow>
     (l, f) \<in> set rows \<and> (\<forall>k<4. (l, f) \<notin> set (parts (split_at E mx my d a rows) ! k))"
proof (cases "(l, f) \<in> set rows")
  case True
  let ?sp = "split_at E mx my d a rows"
  have four: "\<And>P. (\<forall>k<4::nat. P k) \<longleftrightarrow> P 0 \<and> P 1 \<and> P 2 \<and> P 3"
  proof -
    fix P :: "nat \<Rightarrow> bool"
    have "\<And>k::nat. k < 4 \<longleftrightarrow> k = 0 \<or> k = 1 \<or> k = 2 \<or> k = 3" by arith
    then show "(\<forall>k<4::nat. P k) \<longleftrightarrow> P 0 \<and> P 1 \<and> P 2 \<and> P 3" by auto
  qed
  have m: "\<And>k. k < 4 \<Longrightarrow> l \<in> fst ` set (parts ?sp ! k) \<longleftrightarrow> (l, f) \<in> set (parts ?sp ! k)"
    by (rule label_mem[OF assms True]) (rule split_at_subset)
  have "(l, f) \<in> set (excluded_shps ?sp) \<longleftrightarrow>
      (l, f) \<in> set rows \<and> (\<forall>k<4. l \<notin> fst ` set (parts ?sp ! k))"
    unfolding four by (simp add: split_at_def Let_def)
  with m show ?thesis by auto
next
  case False
  then show ?thesis by (auto simp: split_at_def Let_def)
qed

lemma quarters_disjoint:
  assumes "bounds E g = (minx, miny, maxx, maxy)" "minx \<le> maxx" "miny \<le> maxy"
    and "in_quarter E mx my k g" "in_quarter E mx my k' g" "k < 4" "k' < 4"
  shows "k = k'"
proof -
  from assms(6) have k: "k = 0 \<or> k = 1 \<or> k = 2 \<or> k = 3" by arith
  from assms(7) have k': "k' = 0 \<or> k' = 1 \<or> k' = 2 \<or> k' = 3" by arith
  from k k' assms(1-5) show ?thesis
    by (elim disjE) (simp_all add: in_quarter_def)
qed

lemma quads_mid: "extent_mid quads quads_gdf = (10, 10)"
  by (simp add: extent_mid_def quads_gdf_def quad_feature_def quads_def)

lemma quads_rows: "zip quads_labels (features quads_gdf)
   = [(''a'', quad_feature 0), (''b'', quad_feature 1), (''c'', quad_feature 2), (''d'', quad_feature 3),
      (''e'', quad_feature 4), (''f'', quad_feature 5)]"
  by (simp add: quads_gdf_def quads_labels_def)

lemma quads_q:
  "in_quarter quads 10 10 k (geometry (quad_feature p)) \<longleftrightarrow>
     (p = 0 \<and> k = 0) \<or> (p = 1 \<and> k = 0) \<or> (p = 2 \<and> k \<ge> 3) \<or> (p \<ge> 4 \<and> k = 0)"
  by (auto simp: in_quarter_def quads_def quad_feature_def)

lemma quads_b:
  "\<not> in_border quads 10 10 2 0 (geometry (quad_feature 0))"
  "in_border quads 10 10 2 0 (geometry (quad_feature 1))"
  "\<not> in_border quads 10 10 2 0 (geometry (quad_feature 4))"
  "\<not> in_border quads 10 10 2 0 (geometry (quad_feature 5))"
  "\<not> in_border quads 10 10 2 3 (geometry (quad_feature 2))"
  by (simp_all add: in_border_def near_mean_x_def near_mean_y_def quads_def quad_feature_def)

lemma quads_a:
  "area quads (geometry (quad_feature p)) = (if p = 0 \<or> p = 2 then 64 else if p = 3 then 16 else 1)"
  by (simp add: quads_def quad_feature_def)

lemma quads_split:
  "split_parts quads quads_labels quads_gdf 2 5
      = \<lparr>parts = [[(''a'', quad_feature 0), (''e'', quad_feature 4), (''f'', quad_feature 5)], [], [],
                  [(''c'', quad_feature 2)]],
         excluded_shps = [(''b'', quad_feature 1), (''d'', quad_feature 3)]\<rparr>"
  unfolding split_parts_def quads_mid prod.case quads_rows
  by (simp del: One_nat_def set_filter add: split_at_def Let_def quads_q quads_b quads_a)

text \<open>
  C4, as the claim states it, fails for a feature that lies across a middle line: polygon
  \<open>3\<close> (label \<open>d\<close>) has area 16, above the threshold 5, and its bounding box fits none of
  the four quarters, so it is in no partition and is deferred. (Polygon \<open>1\<close> is deferred
  as the claim says; polygons \<open>0\<close>, \<open>4\<close>, \<open>5\<close> and \<open>2\<close> go to the first and fourth
  quarter.)
\<close>

theorem large_feature_deferred:
  "map fst (excluded_shps (split_parts quads quads_labels quads_gdf 2 5)) = [''b'', ''d'']
   \<and> map (map fst) (parts (split_parts quads quads_labels quads_gdf 2 5)) = [[''a'', ''e'', ''f''], [], [], [''c'']]
   \<and> zip quads_labels (features quads_gdf) ! 3 = (''d'', quad_feature 3)
   \<and> area quads (geometry (quad_feature 3)) = 16"
  unfolding quads_split quads_rows by (simp add: quad_feature_def quads_def)

text \<open>
  C4, amended. In \<open>simplify_shps_mp\<close>, on a layer whose index has no label twice and
  whose bounding boxes have \<open>minx \<le> maxx\<close> and \<open>miny \<le> maxy\<close>, every feature is either
  deferred or in exactly one of the four partitions. A deferred feature is passed as it
  is to the final call. A feature whose bounding box fits none of the four quarters (it
  lies across a middle line) is deferred, whatever its area. A feature in a quarter is in
  the partition of that quarter when its area is not below \<open>area_lim\<close> or when it is not
  within \<open>dist_lim\<close> of a middle line; it is deferred when its area is below \<open>area_lim\<close>
  and it is within \<open>dist_lim\<close> of both middle lines. Nothing is deferred but the
  features across a middle line and features of area below \<open>area_lim\<close> in the border band
  of their quarter. (Of a feature of area below \<open>area_lim\<close> within \<open>dist_lim\<close> of one
  middle line only, nothing more is stated: the docstring of \<open>dist_lim\<close> has it in the band,
  the \<open>&\<close> of lines 372 to 388 keeps it in its partition, as polygon \<open>4\<close> above.)
\<close>

theorem partition_of_features:
  assumes "length labels = length (features gdf_in)" and "distinct labels"
    and "i < length (features gdf_in)"
    and "extent_mid E gdf_in = (mean_x, mean_y)"
    and "bounds E (geometry (features gdf_in ! i)) = (minx, miny, maxx, maxy)"
    and "minx \<le> maxx" and "miny \<le> maxy"
    and "sp = split_parts E labels gdf_in dist_lim area_lim"
    and "l = labels ! i" and "f = features gdf_in ! i"
  shows "((l, f) \<in> set (excluded_shps sp) \<longleftrightarrow> (\<forall>k<4. (l, f) \<notin> set (parts sp ! k)))
     \<and> (\<forall>k<4. \<forall>k'<4. (l, f) \<in> set (parts sp ! k) \<longrightarrow> (l, f) \<in> set (parts sp ! k') \<longrightarrow> k = k')
     \<and> ((l, f) \<in> set (excluded_shps sp) \<longrightarrow> f \<in> set (features (final_input parts_simplified gdf_in sp)))
     \<and> ((\<forall>k<4. \<not> in_quarter E mean_x mean_y k (geometry f)) \<longrightarrow> (l, f) \<in> set (excluded_shps sp))
     \<and> (\<forall>k<4. in_quarter E mean_x mean_y k (geometry f)
            \<and> (\<not> area E (geometry f) < area_lim \<or> \<not> spec_border_band E mean_x mean_y dist_lim k (geometry f))
          \<longrightarrow> (l, f) \<in> set (parts sp ! k))
     \<and> (\<forall>k<4. in_quarter E mean_x mean_y k (geometry f) \<and> area E (geometry f) < area_lim
            \<and> near_mean_y E mean_y dist_lim k (geometry f) \<and> near_mean_x E mean_x dist_lim k (geometry f)
          \<longrightarrow> (l, f) \<in> set (excluded_shps sp))
     \<and> ((l, f) \<in> set (excluded_shps sp) \<longrightarrow>
           (\<forall>k<4. \<not> in_quarter E mean_x mean_y k (geometry f))
           \<or> (area E (geometry f) < area_lim
               \<and> (\<exists>k<4. in_quarter E mean_x mean_y k (geometry f)
                     \<and> spec_border_band E mean_x mean_y dist_lim k (geometry f))))"
proof -
  let ?g = "geometry f"
  let ?rows = "zip labels (features gdf_in)"
  let ?Q = "\<lambda>k. in_quarter E mean_x mean_y k ?g"
  let ?B = "\<lambda>k. in_border E mean_x mean_y dist_lim k ?g"
  let ?S = "\<lambda>k. spec_border_band E mean_x mean_y dist_lim k ?g"
  have sp: "sp = split_at E mean_x mean_y dist_lim area_lim ?rows"
    using assms(4,8) by (simp add: split_parts_def)
  have d: "distinct (map fst ?rows)" using assms(1,2) by simp
  have r: "(l, f) \<in> set ?rows"
    using assms(1,3,9,10) by (auto simp: in_set_zip)
  have ex: "(l, f) \<in> set (excluded_shps sp) \<longleftrightarrow> (\<forall>k<4. (l, f) \<notin> set (parts sp ! k))"
    unfolding sp using r by (simp add: split_at_excluded[OF d])
  have pt: "\<And>k. k < 4 \<Longrightarrow> (l, f) \<in> set (parts sp ! k) \<longleftrightarrow> ?Q k \<and> \<not> (?B k \<and> area E ?g < area_lim)"
    unfolding sp using r by (simp add: split_at_part[OF _ d])
  have dj: "\<And>k k'. k < 4 \<Longrightarrow> k' < 4 \<Longrightarrow> ?Q k \<Longrightarrow> ?Q k' \<Longrightarrow> k = k'"
    using quarters_disjoint[OF assms(5)[folded assms(10)] assms(6,7)] by blast
  have bs: "\<And>k. ?B k \<Longrightarrow> ?S k"
    by (simp add: in_border_def spec_border_band_def)
  have bn: "\<And>k. ?B k \<longleftrightarrow> near_mean_y E mean_y dist_lim k ?g \<and> near_mean_x E mean_x dist_lim k ?g"
    by (simp add: in_border_def)
  have 2: "\<forall>k<4. \<forall>k'<4. (l, f) \<in> set (parts sp ! k) \<longrightarrow> (l, f) \<in> set (parts sp ! k') \<longrightarrow> k = k'"
    using pt dj by blast
  have 3: "(l, f) \<in> set (excluded_shps sp) \<longrightarrow> f \<in> set (features (final_input parts_simplified gdf_in sp))"
    by (force simp: final_input_def)
  have 4: "(\<forall>k<4. \<not> ?Q k) \<longrightarrow> (l, f) \<in> set (excluded_shps sp)"
    using ex pt by blast
  have 5: "\<forall>k<4. ?Q k \<and> (\<not> area E ?g < area_lim \<or> \<not> ?S k) \<longrightarrow> (l, f) \<in> set (parts sp ! k)"
    using pt bs by blast
  have 6: "\<forall>k<4. ?Q k \<and> area E ?g < area_lim
        \<and> near_mean_y E mean_y dist_lim k ?g \<and> near_mean_x E mean_x dist_lim k ?g
      \<longrightarrow> (l, f) \<in> set (excluded_shps sp)"
  proof (intro allI impI)
    fix k :: nat
    assume k: "k < 4"
      and h: "?Q k \<and> area E ?g < area_lim
        \<and> near_mean_y E mean_y dist_lim k ?g \<and> near_mean_x E mean_x dist_lim k ?g"
    then have b: "?B k" by (simp add: bn)
    have "\<forall>k'<4. (l, f) \<notin> set (parts sp ! k')"
    proof (intro allI impI)
      fix k' :: nat
      assume k': "k' < 4"
      show "(l, f) \<notin> set (parts sp ! k')"
      proof
        assume "(l, f) \<in> set (parts sp ! k')"
        with pt[OF k'] have q: "?Q k'" and n: "\<not> (?B k' \<and> area E ?g < area_lim)" by simp_all
        from dj[OF k k'] h q have "k = k'" by simp
        with n b h show False by simp
      qed
    qed
    with ex show "(l, f) \<in> set (excluded_shps sp)" by simp
  qed
  have 7: "(l, f) \<in> set (excluded_shps sp) \<longrightarrow>
      (\<forall>k<4. \<not> ?Q k) \<or> (area E ?g < area_lim \<and> (\<exists>k<4. ?Q k \<and> ?S k))"
    using ex pt bs by blast
  from ex 2 3 4 5 6 7 show ?thesis by (intro conjI)
qed

theorem partition_of_features_witness:
  "(''d'', quad_feature 3) \<in> set (excluded_shps (split_parts quads quads_labels quads_gdf 2 5))
   \<and> quad_feature 3 \<in> set (features (final_input [] quads_gdf (split_parts quads quads_labels quads_gdf 2 5)))
   \<and> (''a'', quad_feature 0) \<in> set (parts (split_parts quads quads_labels quads_gdf 2 5) ! 0)
   \<and> (''f'', quad_feature 5) \<in> set (parts (split_parts quads quads_labels quads_gdf 2 5) ! 0)
   \<and> (''b'', quad_feature 1) \<in> set (excluded_shps (split_parts quads quads_labels quads_gdf 2 5))
   \<and> (''b'', quad_feature 1) \<notin> set (parts (split_parts quads quads_labels quads_gdf 2 5) ! 0)"
proof -
  let ?sp = "split_parts quads quads_labels quads_gdf 2 5"
  have len: "length quads_labels = length (features quads_gdf)"
    and dis: "distinct quads_labels"
    by (simp_all add: quads_labels_def quads_gdf_def)
  note t = partition_of_features[where labels = quads_labels and gdf_in = quads_gdf and E = quads
      and mean_x = 10 and mean_y = 10 and dist_lim = 2 and area_lim = 5 and sp = ?sp
      and parts_simplified = "[]", OF len dis _ quads_mid _ _ _ refl]
  have z: "(0::nat) < 4" by simp
  have x3: "(8::real) \<le> 12" and y3: "(8::real) \<le> 12" by simp_all
  have i3: "3 < length (features quads_gdf)"
    and b3: "bounds quads (geometry (features quads_gdf ! 3)) = (8, 8, 12, 12)"
    and l3: "''d'' = quads_labels ! 3" and f3: "quad_feature 3 = features quads_gdf ! 3"
    by (simp_all add: quads_gdf_def quads_labels_def quad_feature_def quads_def)
  have q3: "\<forall>k<4. \<not> in_quarter quads 10 10 k (geometry (quad_feature 3))"
    by (simp add: quads_q)
  have e3: "(''d'', quad_feature 3) \<in> set (excluded_shps ?sp)"
    using t[OF i3 b3 x3 y3 l3 f3] q3 z by blast
  have h3: "quad_feature 3 \<in> set (features (final_input [] quads_gdf ?sp))"
    using t[OF i3 b3 x3 y3 l3 f3] e3 z by blast
  have x0: "(0::real) \<le> 8" and y0: "(12::real) \<le> 20" by simp_all
  have i0: "0 < length (features quads_gdf)"
    and b0: "bounds quads (geometry (features quads_gdf ! 0)) = (0, 12, 8, 20)"
    and l0: "''a'' = quads_labels ! 0" and f0: "quad_feature 0 = features quads_gdf ! 0"
    by (simp_all add: quads_gdf_def quads_labels_def quad_feature_def quads_def)
  have q0: "in_quarter quads 10 10 0 (geometry (quad_feature 0))"
    "\<not> area quads (geometry (quad_feature 0)) < 5"
    by (simp_all add: quads_q quads_a)
  have h0: "(''a'', quad_feature 0) \<in> set (parts ?sp ! 0)"
    using t[OF i0 b0 x0 y0 l0 f0] q0 z by blast
  have x5: "(0::real) \<le> 1" and y5: "(15::real) \<le> 16" by simp_all
  have i5: "5 < length (features quads_gdf)"
    and b5: "bounds quads (geometry (features quads_gdf ! 5)) = (0, 15, 1, 16)"
    and l5: "''f'' = quads_labels ! 5" and f5: "quad_feature 5 = features quads_gdf ! 5"
    by (simp_all add: quads_gdf_def quads_labels_def quad_feature_def quads_def)
  have q5: "in_quarter quads 10 10 0 (geometry (quad_feature 5))"
    "\<not> spec_border_band quads 10 10 2 0 (geometry (quad_feature 5))"
    by (simp_all add: in_quarter_def spec_border_band_def near_mean_x_def near_mean_y_def quads_def
        quad_feature_def)
  have h5: "(''f'', quad_feature 5) \<in> set (parts ?sp ! 0)"
    using t[OF i5 b5 x5 y5 l5 f5] q5 z by blast
  have x1: "(9::real) \<le> 10" and y1: "(10::real) \<le> 11" by simp_all
  have i1: "1 < length (features quads_gdf)"
    and b1: "bounds quads (geometry (features quads_gdf ! 1)) = (9, 10, 10, 11)"
    and l1: "''b'' = quads_labels ! 1" and f1: "quad_feature 1 = features quads_gdf ! 1"
    by (simp_all add: quads_gdf_def quads_labels_def quad_feature_def quads_def)
  have q1: "in_quarter quads 10 10 0 (geometry (quad_feature 1))"
    "area quads (geometry (quad_feature 1)) < 5"
    "near_mean_y quads 10 2 0 (geometry (quad_feature 1))"
    "near_mean_x quads 10 2 0 (geometry (quad_feature 1))"
    by (simp_all add: in_quarter_def near_mean_x_def near_mean_y_def quads_def quad_feature_def)
  have e1: "(''b'', quad_feature 1) \<in> set (excluded_shps ?sp)"
    using t[OF i1 b1 x1 y1 l1 f1] q1 z by blast
  have h1: "(''b'', quad_feature 1) \<notin> set (parts ?sp ! 0)"
    using t[OF i1 b1 x1 y1 l1 f1] e1 z by blast
  from e3 h3 h0 h5 e1 h1 show ?thesis by (intro conjI)
qed

section \<open>Deleting a shapefile\<close>

lemma del_shp_other_suffix: "suffix fp \<noteq> ''.shp'' \<Longrightarrow> del_shp fs fp = Inl Warning"
  by (simp add: del_shp_def)

lemma del_shp_roads:
  "del_shp roads_fs \<lparr>parent = ''d'', name = ''roads.shp''\<rparr>
     = Inr [\<lparr>parent = ''d'', name = ''roads2.shp''\<rparr>, \<lparr>parent = ''e'', name = ''roads.dbf''\<rparr>]"
  "del_shp roads_fs \<lparr>parent = ''d'', name = ''roads.txt''\<rparr> = Inl Warning"
  by (simp_all add: del_shp_def suffix_def stem_def rfind_dot_def glob_def roads_fs_def)

lemma translate_bracket:
  "translate ''a[1].*'' = [Lit CHR ''a'', Class False [(CHR ''1'', CHR ''1'')], Lit CHR ''.'', Star]"
  by (simp add: split_class_def)

lemma bracket_suffix_stem:
  "suffix \<lparr>parent = ''d'', name = ''a[1].shp''\<rparr> = ''.shp''"
  "stem \<lparr>parent = ''d'', name = ''a[1].shp''\<rparr> = ''a[1]''"
  by (simp_all add: suffix_def stem_def rfind_dot_def)

lemma glob_bracket: "glob bracket_fs ''d'' ''a[1].*'' = [\<lparr>parent = ''d'', name = ''a1.shp''\<rparr>]"
  unfolding glob_def translate_bracket by (simp add: bracket_fs_def)

text \<open>
  C9. \<open>del_shp\<close> hands the stem to \<open>glob\<close> as a pattern. For the layer \<open>d/a[1].shp\<close>
  the pattern is \<open>a[1].*\<close>, where \<open>[1]\<close> stands for the one character \<open>1\<close>: the call
  returns without an error, the files \<open>a[1].shp\<close> and \<open>a[1].dbf\<close> of the layer are
  still there, and the file \<open>a1.shp\<close> of another layer is gone.
\<close>

theorem bracket_stem_not_deleted:
  "del_shp bracket_fs \<lparr>parent = ''d'', name = ''a[1].shp''\<rparr>
     = Inr [\<lparr>parent = ''d'', name = ''a[1].shp''\<rparr>, \<lparr>parent = ''d'', name = ''a[1].dbf''\<rparr>]"
  unfolding del_shp_def bracket_suffix_stem by (simp add: glob_bracket, simp add: bracket_fs_def)

section \<open>Termination of the loop\<close>

lemma within_loop:
  "simplify_loop_within n E c a r st = Some y \<Longrightarrow> simplify_loop E c a r st = Some y"
proof (induction n arbitrary: st)
  case 0
  then show ?case by (subst simplify_loop.simps) (simp split: if_splits)
next
  case (Suc n)
  show ?case
  proof (cases "continues st")
    case False
    with Suc.prems show ?thesis by (subst simplify_loop.simps) simp
  next
    case True
    show ?thesis
    proof (cases "pass E c a r st")
      case (Inl e)
      with True Suc.prems show ?thesis by (subst simplify_loop.simps) auto
    next
      case (Inr st')
      with True Suc.prems have "simplify_loop_within n E c a r st' = Some y" by simp
      then have "simplify_loop E c a r st' = Some y" by (rule Suc.IH)
      with True Inr show ?thesis by (subst simplify_loop.simps) simp
    qed
  qed
qed

lemma within_shps:
  "simplify_shps_within n E gdf a r = Some y \<Longrightarrow> simplify_shps E gdf a r = Some y"
  by (auto simp: simplify_shps_within_def simplify_shps_def split: sum.splits option.splits
      dest: within_loop)

lemma update_geometry_same:
  "map geometry (g[i := (g ! i)\<lparr>cats := cs, changed := b\<rparr>]) = map geometry g"
proof (cases "i < length g")
  case True
  then show ?thesis by (simp add: map_update list_update_same_conv)
next
  case False
  then have "g[i := (g ! i)\<lparr>cats := cs, changed := b\<rparr>] = g" by (intro list_update_beyond) simp
  then show ?thesis by simp
qed

lemma scan_row_geometry:
  "scan_row E c r g ir = Inr g' \<Longrightarrow> map geometry g' = map geometry g"
  by (auto simp: scan_row_def select_and_replace_def update_geometry_same
      split: prod.splits option.splits sum.splits)

lemma scan_geometry:
  "scan E c r todo g = Inr g' \<Longrightarrow> map geometry g' = map geometry g"
proof (induction todo arbitrary: g)
  case Nil
  then show ?case by simp
next
  case (Cons ir todo)
  then show ?case by (auto split: sum.splits dest: scan_row_geometry)
qed

lemma explode_length:
  "length (explode rows) = sum_list (map (\<lambda>r. length (get_parts (geometry r))) rows)"
  by (simp add: explode_def length_concat comp_def)

lemma dissolve_explode_length:
  assumes "shrinking E"
  shows "(\<forall>r \<in> set rows. \<exists>p. geometry r = Polygon p)
           \<Longrightarrow> length (explode (dissolve E rows)) \<le> length rows"
proof (induction rows rule: length_induct)
  case (1 rows)
  show ?case
  proof (cases rows)
    case Nil
    then show ?thesis by (simp add: explode_def)
  next
    case (Cons r rs)
    let ?same = "filter (\<lambda>s. dis_key s = dis_key r) rs"
    let ?other = "filter (\<lambda>s. dis_key s \<noteq> dis_key r) rs"
    let ?gs = "geometry r # map geometry ?same"
    have "?gs \<noteq> [] \<and> (\<forall>g \<in> set ?gs. \<exists>p. g = Polygon p)"
      using 1(2) Cons by auto
    with assms have u: "length (get_parts (unary_union E ?gs)) \<le> length ?gs"
      unfolding shrinking_def by blast
    have "length ?other < length rows" using Cons by (simp add: less_Suc_eq_le)
    moreover have "\<forall>r \<in> set ?other. \<exists>p. geometry r = Polygon p" using 1(2) Cons by auto
    ultimately have o: "length (explode (dissolve E ?other)) \<le> length ?other"
      using 1(1) by blast
    have "length ?same + length ?other = length rs"
      by (rule sum_length_filter_compl)
    moreover have "length (explode (dissolve E rows))
        = length (get_parts (unary_union E ?gs)) + length (explode (dissolve E ?other))"
      using Cons by (simp add: explode_def)
    ultimately show ?thesis using u o Cons by simp
  qed
qed

lemma pass_shrinks:
  assumes "shrinking E" and "pass E c a r st = Inr st'"
    and "\<forall>x \<in> set (gdf_out st). \<exists>p. geometry x = Polygon p"
  shows "length (gdf_out st') \<le> length (gdf_out st)"
proof -
  from assms(2) obtain scanned where s: "scan E c r (mask_shps_small st) (gdf_out st) = Inr scanned"
    and g: "gdf_out st' = map (\<lambda>r. r\<lparr>changed := False\<rparr>) (explode (dissolve E scanned))"
    by (rule pass_Inr)
  from s have m: "map geometry scanned = map geometry (gdf_out st)" by (rule scan_geometry)
  have "\<forall>x \<in> set scanned. \<exists>p. geometry x = Polygon p"
  proof
    fix x assume "x \<in> set scanned"
    then have "geometry x \<in> set (map geometry (gdf_out st))" unfolding m[symmetric] by simp
    with assms(3) show "\<exists>p. geometry x = Polygon p" by auto
  qed
  then have "length (explode (dissolve E scanned)) \<le> length scanned"
    by (rule dissolve_explode_length[OF assms(1)])
  with g scan_length[OF s] show ?thesis by simp
qed

lemma reachable_mask_nonempty:
  assumes "reachable E gdf a r st" "continues st"
  shows "gdf_out st \<noteq> []"
proof -
  from assms(1) have "small_shps E (crs gdf) a (gdf_out st) = Inr (mask_shps_small st)"
    by (rule reachable_mask)
  moreover from assms(2) have "mask_shps_small st \<noteq> []" by (simp add: continues_def)
  ultimately show ?thesis by (auto simp: small_shps_def split: option.splits)
qed

lemma loop_within_returns:
  assumes "shrinking E"
  shows "reachable E gdf a r st \<Longrightarrow> length (gdf_out st) \<le> n
           \<Longrightarrow> \<exists>y. simplify_loop_within n E (crs gdf) a r st = Some y"
proof (induction n arbitrary: st)
  case 0
  then have "gdf_out st = []" by simp
  with reachable_mask_nonempty[OF 0(1)] have "\<not> continues st" by blast
  then show ?case by simp
next
  case (Suc n)
  show ?case
  proof (cases "continues st")
    case False
    then show ?thesis by simp
  next
    case True
    show ?thesis
    proof (cases "pass E (crs gdf) a r st")
      case (Inl e)
      with True show ?thesis by simp
    next
      case (Inr st')
      have re: "reachable E gdf a r st'"
        using Suc.prems(1) True Inr by (rule reachable.step)
      have le: "length (gdf_out st') \<le> length (gdf_out st)"
        using assms Inr reachable_polygon[OF Suc.prems(1)] by (intro pass_shrinks) auto
      from Inr obtain scanned where s: "scan E (crs gdf) r (mask_shps_small st) (gdf_out st) = Inr scanned"
        and b: "len_before st' = length scanned" and af: "len_after st' = length (gdf_out st')"
        by (rule pass_Inr)
      have b': "len_before st' = length (gdf_out st)" using b scan_length[OF s] by simp
      show ?thesis
      proof (cases "continues st'")
        case False
        then have "simplify_loop_within n E (crs gdf) a r st' = Some (Inr st')"
          by (cases n) simp_all
        with True Inr show ?thesis by simp
      next
        case c: True
        then have "length (gdf_out st') \<noteq> length (gdf_out st)"
          using b' af by (simp add: continues_def)
        with le Suc.prems(2) have "length (gdf_out st') \<le> n" by simp
        from Suc.IH[OF re this] True Inr show ?thesis by simp
      qed
    qed
  qed
qed

section \<open>The strips as a geometry library\<close>

lemma insert_strip_length: "length (insert_strip p xs) \<le> Suc (length xs)"
proof (induction p xs rule: insert_strip.induct)
  case (1 l h)
  then show ?case by simp
next
  case (2 l h l' h' xs)
  then show ?case by (auto simp: le_SucI)
qed

lemma fold_insert_strip_length:
  "length (fold insert_strip ps acc) \<le> length ps + length acc"
proof (induction ps arbitrary: acc)
  case Nil
  then show ?case by simp
next
  case (Cons p ps)
  have "length (fold insert_strip ps (insert_strip p acc)) \<le> length ps + length (insert_strip p acc)"
    by (rule Cons.IH)
  also have "\<dots> \<le> length ps + Suc (length acc)"
    using insert_strip_length[of p acc] by simp
  finally show ?case by simp
qed

lemma strips_polygons:
  "\<forall>g \<in> set gs. \<exists>p. g = Polygon p \<Longrightarrow> length (concat (map strips gs)) = length gs"
  by (induction gs) auto

lemma strip_union_parts:
  "length (get_parts (strip_union gs)) = max 1 (length (fold insert_strip (concat (map strips gs)) []))"
  by (auto simp: strip_union_def split: list.splits)

lemma shrinking_strip: "shrinking strip"
  unfolding shrinking_def
proof (intro allI impI)
  fix gs :: "(nat \<times> nat) geom list"
  assume a: "gs \<noteq> [] \<and> (\<forall>g \<in> set gs. \<exists>p. g = Polygon p)"
  then have "length (concat (map strips gs)) = length gs" by (simp add: strips_polygons)
  with fold_insert_strip_length[of "concat (map strips gs)" "[]"]
  have "length (fold insert_strip (concat (map strips gs)) []) \<le> length gs" by simp
  moreover from a have "1 \<le> length gs" by (cases gs) auto
  ultimately show "length (get_parts (unary_union strip gs)) \<le> length gs"
    by (simp add: strip_def strip_union_parts)
qed

lemma pos_less: "i < j \<Longrightarrow> pos i < pos j"
proof (induction j)
  case 0
  then show ?case by simp
next
  case (Suc j)
  then show ?case by (cases "i = j") (auto simp: less_Suc_eq)
qed

lemma pos_le: "pos i \<le> pos j \<longleftrightarrow> i \<le> j"
proof
  assume "pos i \<le> pos j"
  then show "i \<le> j" using pos_less[of j i] by (cases "i \<le> j") auto
next
  assume "i \<le> j"
  then show "pos i \<le> pos j" using pos_less[of i j] by (cases "i = j") auto
qed

lemma strip_union_one: "strip_union [Polygon p] = Polygon p"
  by (cases p) (simp add: strip_union_def)

lemma strip_union_two:
  "a \<le> b \<Longrightarrow> b \<le> H \<Longrightarrow> strip_union [Polygon (a, b), Polygon (b, H)] = Polygon (a, H)"
  by (simp add: strip_union_def)

section \<open>A pass over a chain of strips\<close>

lemma filter_eq_upt: "filter (\<lambda>j. j = j0) [0..<m] = (if j0 < m then [j0] else [])"
  by (induction m) auto

lemma filter_enum_single:
  assumes "\<And>j. j < m \<Longrightarrow> P (j, f j) \<longleftrightarrow> j = j0"
  shows "filter P (map (\<lambda>j. (j, f j)) [0..<m]) = (if j0 < m then [(j0, f j0)] else [])"
proof -
  have "filter (P \<circ> (\<lambda>j. (j, f j))) [0..<m] = filter (\<lambda>j. j = j0) [0..<m]"
    by (rule filter_cong) (auto simp: assms)
  then show ?thesis by (simp add: filter_map filter_eq_upt)
qed

lemma chain_length: "length (chain_rows m H c ch) = m"
  by (simp add: chain_rows_def)

lemma chain_nth:
  "k < m \<Longrightarrow> chain_rows m H c ch ! k =
     \<lparr>geometry = Polygon (pos k, if Suc k = m then H else pos (Suc k)),
      cats = [Num (c k)], keeps = [], others = [], changed = ch k\<rparr>"
  by (simp add: chain_rows_def)

lemma chain_enumerate:
  "enumerate 0 (chain_rows m H c ch) = map (\<lambda>k. (k, chain_rows m H c ch ! k)) [0..<m]"
proof -
  have "enumerate 0 (chain_rows m H c ch) =
     map (\<lambda>k. (k, \<lparr>geometry = Polygon (pos k, if Suc k = m then H else pos (Suc k)),
          cats = [Num (c k)], keeps = [], others = [], changed = ch k\<rparr>)) [0..<m]"
    unfolding chain_rows_def by (rule enumerate_map_upt)
  also have "\<dots> = map (\<lambda>k. (k, chain_rows m H c ch ! k)) [0..<m]"
    by (rule map_cong) (simp_all add: chain_nth)
  finally show ?thesis .
qed

lemma chain_intersects:
  assumes "j < m" "k < m" "pos m \<le> H"
  shows "strip_intersects (Polygon (pos j, if Suc j = m then H else pos (Suc j)))
           (Polygon (pos k, if Suc k = m then H else pos (Suc k)))
         \<longleftrightarrow> j \<le> Suc k \<and> k \<le> Suc j"
proof -
  have j: "pos j \<le> pos m" and k: "pos k \<le> pos m" using assms(1,2) by (simp_all add: pos_le)
  have a: "pos j \<le> (if Suc k = m then H else pos (Suc k)) \<longleftrightarrow> j \<le> Suc k"
  proof (cases "Suc k = m")
    case True
    with assms j show ?thesis by auto
  next
    case False
    then show ?thesis using pos_le[of j "Suc k"] by simp
  qed
  have b: "pos k \<le> (if Suc j = m then H else pos (Suc j)) \<longleftrightarrow> k \<le> Suc j"
  proof (cases "Suc j = m")
    case True
    with assms k show ?thesis by auto
  next
    case False
    then show ?thesis using pos_le[of k "Suc j"] by simp
  qed
  show ?thesis unfolding strip_intersects_def using a b by simp
qed

lemma chain_candidates:
  assumes "inj c" "k < m" "pos m \<le> H"
  shows "candidates strip (chain_rows m H (\<lambda>i. if i < k then c (Suc i) else c i) ch)
           (chain_rows m H c (\<lambda>i. False) ! k)
         = (if Suc k < m
            then [(Suc k, chain_rows m H (\<lambda>i. if i < k then c (Suc i) else c i) ch ! Suc k)]
            else [])"
proof -
  let ?c = "\<lambda>i. if i < k then c (Suc i) else c i"
  let ?R = "chain_rows m H ?c ch"
  let ?row = "chain_rows m H c (\<lambda>i. False) ! k"
  let ?P = "\<lambda>(j, r). ((touches strip (geometry r) (geometry ?row) \<or> intersects strip (geometry r) (geometry ?row))
      \<and> list_ex (\<lambda>(a, b). a \<noteq> b) (zip (cats r) (cats ?row)))
      \<and> list_all (\<lambda>(a, b). a = b) (zip (keeps r) (keeps ?row))"
  have P: "?P (j, ?R ! j) \<longleftrightarrow> j = Suc k" if "j < m" for j
  proof -
    have i: "intersects strip (geometry (?R ! j)) (geometry ?row) \<longleftrightarrow> j \<le> Suc k \<and> k \<le> Suc j"
      using that assms chain_intersects[of j m k H] by (simp add: chain_nth strip_def)
    have t: "touches strip (geometry (?R ! j)) (geometry ?row) \<longrightarrow> intersects strip (geometry (?R ! j)) (geometry ?row)"
      by (simp add: strip_def)
    have d: "list_ex (\<lambda>(a, b). a \<noteq> b) (zip (cats (?R ! j)) (cats ?row)) \<longleftrightarrow> ?c j \<noteq> c k"
      using that assms by (simp add: chain_nth)
    have e: "list_all (\<lambda>(a, b). a = b) (zip (keeps (?R ! j)) (keeps ?row))"
      using that assms by (simp add: chain_nth)
    have "?c j \<noteq> c k \<and> j \<le> Suc k \<and> k \<le> Suc j \<longleftrightarrow> j = Suc k"
      using assms(1) by (auto simp: inj_eq)
    with i t d e show ?thesis by auto
  qed
  have "candidates strip ?R ?row = filter ?P (enumerate 0 ?R)"
    by (simp add: candidates_def Let_def case_prod_unfold conj_commute conj_left_commute)
  also have "\<dots> = filter ?P (map (\<lambda>j. (j, ?R ! j)) [0..<m])"
    by (simp only: chain_enumerate)
  also have "\<dots> = (if Suc k < m then [(Suc k, ?R ! Suc k)] else [])"
    by (rule filter_enum_single) (rule P)
  finally show ?thesis .
qed

lemma chain_scan_row:
  assumes "inj c" "Suc k < m" "pos m \<le> H"
  shows "scan_row strip (Some ()) None
           (chain_rows m H (\<lambda>i. if i < k then c (Suc i) else c i) (\<lambda>i. i < k))
           (k, chain_rows m H c (\<lambda>i. False) ! k)
         = Inr (chain_rows m H (\<lambda>i. if i < Suc k then c (Suc i) else c i) (\<lambda>i. i < Suc k))"
proof -
  let ?R = "chain_rows m H (\<lambda>i. if i < k then c (Suc i) else c i) (\<lambda>i. i < k)"
  let ?R' = "chain_rows m H (\<lambda>i. if i < Suc k then c (Suc i) else c i) (\<lambda>i. i < Suc k)"
  let ?row = "chain_rows m H c (\<lambda>i. False) ! k"
  from assms have k: "k < m" by simp
  have c: "candidates strip ?R ?row = [(Suc k, ?R ! Suc k)]"
    using chain_candidates[OF assms(1) k assms(3)] assms(2) by simp
  have n: "\<not> changed (?R ! Suc k)" using assms(2) by (simp add: chain_nth)
  have r: "refresh_touch strip [(Suc k, ?R ! Suc k)] = Some [(Suc k, ?R ! Suc k)]"
    using n by (simp add: refresh_touch_def)
  have s: "select_and_replace strip (Some ()) None ?R k ?row [(Suc k, ?R ! Suc k)]
      = Inr (?R[k := (?R ! k)\<lparr>cats := cats (?R ! Suc k), changed := True\<rparr>])"
    by (simp add: select_and_replace_def choose_neighbour_def)
  have u: "?R[k := (?R ! k)\<lparr>cats := cats (?R ! Suc k), changed := True\<rparr>] = ?R'"
  proof (rule nth_equalityI)
    show "length (?R[k := (?R ! k)\<lparr>cats := cats (?R ! Suc k), changed := True\<rparr>]) = length ?R'"
      by (simp add: chain_length)
  next
    fix i assume "i < length (?R[k := (?R ! k)\<lparr>cats := cats (?R ! Suc k), changed := True\<rparr>])"
    then have i: "i < m" by (simp add: chain_length)
    show "?R[k := (?R ! k)\<lparr>cats := cats (?R ! Suc k), changed := True\<rparr>] ! i = ?R' ! i"
      using i k assms(2) by (cases "i = k") (auto simp: chain_nth chain_length)
  qed
  show ?thesis unfolding scan_row_def prod.case c r option.case s u ..
qed

lemma chain_scan_last:
  assumes "inj c" "Suc k = m" "pos m \<le> H"
  shows "scan_row strip (Some ()) None
           (chain_rows m H (\<lambda>i. if i < k then c (Suc i) else c i) (\<lambda>i. i < k))
           (k, chain_rows m H c (\<lambda>i. False) ! k)
         = Inr (chain_rows m H (\<lambda>i. if i < k then c (Suc i) else c i) (\<lambda>i. i < k))"
proof -
  from assms have k: "k < m" by auto
  have "candidates strip (chain_rows m H (\<lambda>i. if i < k then c (Suc i) else c i) (\<lambda>i. i < k))
      (chain_rows m H c (\<lambda>i. False) ! k) = []"
    using chain_candidates[OF assms(1) k assms(3)] assms(2) by simp
  then show ?thesis by (simp add: scan_row_def refresh_touch_def)
qed

lemma chain_scan_from:
  assumes "inj c" "pos m \<le> H"
  shows "k < m \<Longrightarrow>
     scan strip (Some ()) None (map (\<lambda>j. (j, chain_rows m H c (\<lambda>i. False) ! j)) [k..<m])
       (chain_rows m H (\<lambda>i. if i < k then c (Suc i) else c i) (\<lambda>i. i < k))
     = Inr (chain_rows m H (\<lambda>i. if Suc i < m then c (Suc i) else c i) (\<lambda>i. Suc i < m))"
proof (induction "m - k" arbitrary: k)
  case 0
  then show ?case by simp
next
  case (Suc d)
  then have up: "[k..<m] = k # [Suc k..<m]" by (simp add: upt_conv_Cons)
  show ?case
  proof (cases "Suc k = m")
    case True
    then have e: "[Suc k..<m] = []" by simp
    have f: "(\<lambda>i. if i < k then c (Suc i) else c i) = (\<lambda>i. if Suc i < m then c (Suc i) else c i)"
      "(\<lambda>i. i < k) = (\<lambda>i. Suc i < m)"
      using True by auto
    show ?thesis
      unfolding up e using chain_scan_last[OF assms(1) True assms(2)] by (simp add: f)
  next
    case False
    with Suc.prems have lt: "Suc k < m" by simp
    from Suc.hyps(2) have d: "d = m - Suc k" by simp
    have IH: "scan strip (Some ()) None (map (\<lambda>j. (j, chain_rows m H c (\<lambda>i. False) ! j)) [Suc k..<m])
       (chain_rows m H (\<lambda>i. if i < Suc k then c (Suc i) else c i) (\<lambda>i. i < Suc k))
     = Inr (chain_rows m H (\<lambda>i. if Suc i < m then c (Suc i) else c i) (\<lambda>i. Suc i < m))"
      using Suc.hyps(1)[OF d lt] .
    show ?thesis
      unfolding up using chain_scan_row[OF assms(1) lt assms(2)] IH by simp
  qed
qed

lemma chain_scan:
  assumes "inj c" "pos m \<le> H" "0 < m"
  shows "scan strip (Some ()) None (enumerate 0 (chain_rows m H c (\<lambda>i. False)))
           (chain_rows m H c (\<lambda>i. False))
         = Inr (chain_rows m H (\<lambda>i. if Suc i < m then c (Suc i) else c i) (\<lambda>i. Suc i < m))"
  using chain_scan_from[OF assms(1,2), of 0] assms(3) by (simp add: chain_enumerate)

lemma dissolve_tail:
  assumes "distinct (map dis_key xs)" "\<forall>x \<in> set xs. dis_key x \<noteq> dis_key y" "dis_key z = dis_key y"
  shows "dissolve E (xs @ [y, z])
         = map (\<lambda>r. r\<lparr>geometry := unary_union E [geometry r]\<rparr>) xs
           @ [y\<lparr>geometry := unary_union E [geometry y, geometry z]\<rparr>]"
  using assms
proof (induction xs)
  case Nil
  then show ?case by simp
next
  case (Cons x xs)
  from Cons.prems have nx: "\<forall>s \<in> set xs. dis_key s \<noteq> dis_key x"
    and ny: "dis_key y \<noteq> dis_key x" and nz: "dis_key z \<noteq> dis_key x"
    by (auto simp: image_iff)
  have s: "filter (\<lambda>s. dis_key s = dis_key x) (xs @ [y, z]) = []"
    using nx ny nz by (simp add: filter_empty_conv)
  have o: "filter (\<lambda>s. dis_key s \<noteq> dis_key x) (xs @ [y, z]) = xs @ [y, z]"
    using nx ny nz by (simp add: filter_id_conv)
  have IH: "dissolve E (xs @ [y, z])
         = map (\<lambda>r. r\<lparr>geometry := unary_union E [geometry r]\<rparr>) xs
           @ [y\<lparr>geometry := unary_union E [geometry y, geometry z]\<rparr>]"
    using Cons.prems by (intro Cons.IH) auto
  have "dissolve E ((x # xs) @ [y, z]) =
      x\<lparr>geometry := unary_union E (geometry x # map geometry (filter (\<lambda>s. dis_key s = dis_key x) (xs @ [y, z])))\<rparr>
       # dissolve E (filter (\<lambda>s. dis_key s \<noteq> dis_key x) (xs @ [y, z]))"
    by (simp only: append_Cons dissolve.simps)
  also have "\<dots> = x\<lparr>geometry := unary_union E [geometry x]\<rparr> # dissolve E (xs @ [y, z])"
    unfolding s o by simp
  finally show ?case unfolding IH by simp
qed

lemma explode_one: "geometry r = Polygon p \<Longrightarrow> explode (r # rows) = r # explode rows"
proof -
  assume g: "geometry r = Polygon p"
  then have "r\<lparr>geometry := Polygon p\<rparr> = r" by (cases r) simp
  with g show ?thesis by (simp add: explode_def)
qed

lemma explode_polygons:
  "\<forall>r \<in> set rows. \<exists>p. geometry r = Polygon p \<Longrightarrow> explode rows = rows"
proof (induction rows)
  case Nil
  then show ?case by (simp add: explode_def)
next
  case (Cons r rows)
  then obtain p where "geometry r = Polygon p" by auto
  then have "explode (r # rows) = r # explode rows" by (rule explode_one)
  with Cons show ?case by simp
qed

lemma chain_rows_Suc:
  "chain_rows (Suc n) H c ch =
     map (\<lambda>k. \<lparr>geometry = Polygon (pos k, pos (Suc k)), cats = [Num (c k)], keeps = [], others = [],
                changed = ch k\<rparr>) [0..<n]
     @ [\<lparr>geometry = Polygon (pos n, H), cats = [Num (c n)], keeps = [], others = [],
          changed = ch n\<rparr>]"
  unfolding chain_rows_def by simp

lemma chain_rows_Suc_Suc:
  "chain_rows (Suc (Suc n)) H c ch =
     map (\<lambda>k. \<lparr>geometry = Polygon (pos k, pos (Suc k)), cats = [Num (c k)], keeps = [], others = [],
                changed = ch k\<rparr>) [0..<n]
     @ [\<lparr>geometry = Polygon (pos n, pos (Suc n)), cats = [Num (c n)], keeps = [], others = [],
          changed = ch n\<rparr>,
        \<lparr>geometry = Polygon (pos (Suc n), H), cats = [Num (c (Suc n))], keeps = [], others = [],
          changed = ch (Suc n)\<rparr>]"
  unfolding chain_rows_def by simp

lemma chain_dissolve:
  assumes "inj c" "pos (Suc (Suc n)) \<le> H"
  shows "map (\<lambda>r. r\<lparr>changed := False\<rparr>)
           (explode (dissolve strip
              (chain_rows (Suc (Suc n)) H (\<lambda>i. if Suc i < Suc (Suc n) then c (Suc i) else c i)
                 (\<lambda>i. Suc i < Suc (Suc n)))))
         = chain_rows (Suc n) H (\<lambda>i. c (Suc i)) (\<lambda>i. False)"
proof -
  let ?xs = "map (\<lambda>k. \<lparr>geometry = Polygon (pos k, pos (Suc k)), cats = [Num (c (Suc k))],
      keeps = [], others = [], changed = True\<rparr>) [0..<n]"
  let ?y = "\<lparr>geometry = Polygon (pos n, pos (Suc n)), cats = [Num (c (Suc n))], keeps = [],
      others = [], changed = True\<rparr>"
  let ?z = "\<lparr>geometry = Polygon (pos (Suc n), H), cats = [Num (c (Suc n))], keeps = [],
      others = [], changed = False\<rparr>"
  let ?yz = "\<lparr>geometry = Polygon (pos n, H), cats = [Num (c (Suc n))], keeps = [],
      others = [], changed = True\<rparr>"
  have split: "chain_rows (Suc (Suc n)) H (\<lambda>i. if Suc i < Suc (Suc n) then c (Suc i) else c i)
      (\<lambda>i. Suc i < Suc (Suc n)) = ?xs @ [?y, ?z]"
    unfolding chain_rows_Suc_Suc by simp
  have keys: "map dis_key ?xs = map (\<lambda>k. [Num (c (Suc k))]) [0..<n]"
    by (simp add: dis_key_def)
  have ce: "c a = c b \<longleftrightarrow> a = b" for a b
    using assms(1) by (simp add: inj_eq)
  have "inj_on (\<lambda>k. [Num (c (Suc k))]) (set [0..<n])"
    by (rule inj_onI) (simp add: ce)
  then have d: "distinct (map dis_key ?xs)"
    unfolding keys by (simp add: distinct_map)
  have ne: "\<forall>x \<in> set ?xs. dis_key x \<noteq> dis_key ?y"
    by (auto simp: dis_key_def ce)
  have eq: "dis_key ?z = dis_key ?y"
    by (simp add: dis_key_def)
  have u1: "map (\<lambda>r. r\<lparr>geometry := unary_union strip [geometry r]\<rparr>) ?xs = ?xs"
    by (simp add: strip_def strip_union_one)
  have le: "pos n \<le> pos (Suc n)" "pos (Suc n) \<le> H" using assms(2) by simp_all
  have u2: "?y\<lparr>geometry := unary_union strip [geometry ?y, geometry ?z]\<rparr> = ?yz"
    using strip_union_two[OF le] by (simp add: strip_def)
  have dis: "dissolve strip (?xs @ [?y, ?z]) = ?xs @ [?yz]"
    unfolding dissolve_tail[OF d ne eq] u1 u2 ..
  have ex: "explode (?xs @ [?yz]) = ?xs @ [?yz]"
    by (rule explode_polygons) auto
  have "map (\<lambda>r. r\<lparr>changed := False\<rparr>) (?xs @ [?yz])
      = chain_rows (Suc n) H (\<lambda>i. c (Suc i)) (\<lambda>i. False)"
    unfolding chain_rows_Suc by simp
  then show ?thesis unfolding split dis ex .
qed

lemma chain_hi:
  assumes "k < m" "pos m \<le> H"
  shows "pos (Suc k) \<le> (if Suc k = m then H else pos (Suc k))"
    and "(if Suc k = m then H else pos (Suc k)) \<le> H"
proof -
  from assms(1) have "Suc k \<le> m" by simp
  then have "pos (Suc k) \<le> pos m" by (simp only: pos_le)
  with assms(2) show "pos (Suc k) \<le> (if Suc k = m then H else pos (Suc k))"
    and "(if Suc k = m then H else pos (Suc k)) \<le> H" by auto
qed

lemma chain_area:
  "k < m \<Longrightarrow> strip_area (geometry (chain_rows m H c ch ! k))
     = real (if Suc k = m then H else pos (Suc k)) - real (pos k)"
  by (simp add: chain_nth strip_area_def)

lemma chain_small:
  assumes "pos m \<le> H" "real H < area_lim"
  shows "small_shps strip (Some ()) area_lim (chain_rows m H c (\<lambda>i. False))
         = Inr (enumerate 0 (chain_rows m H c (\<lambda>i. False)))"
proof -
  let ?R = "chain_rows m H c (\<lambda>i. False)"
  let ?ar = "\<lambda>k. real (if Suc k = m then H else pos (Suc k)) - real (pos k)"
  have small: "?ar k < area_lim" if "k < m" for k
  proof -
    have "real (if Suc k = m then H else pos (Suc k)) \<le> real H"
      using chain_hi(2)[OF that assms(1)] by (simp only: of_nat_le_iff)
    with assms(2) show ?thesis by simp
  qed
  have f: "filter (\<lambda>(i, r). area_epsg31467 strip () (geometry r) < area_lim) (enumerate 0 ?R)
      = enumerate 0 ?R"
    unfolding chain_enumerate filter_id_conv
    using small by (auto simp: strip_def chain_area)
  have m: "map (\<lambda>(i, r). area strip (geometry r)) (enumerate 0 ?R) = map ?ar [0..<m]"
    unfolding chain_enumerate by (simp add: strip_def chain_area)
  have "sorted (map ?ar [0..<m])"
    unfolding sorted_iff_nth_mono
  proof (intro allI impI)
    fix i j assume ij: "i \<le> j" and "j < length (map ?ar [0..<m])"
    then have j: "j < m" by simp
    show "map ?ar [0..<m] ! i \<le> map ?ar [0..<m] ! j"
    proof (cases "i = j")
      case True
      then show ?thesis by simp
    next
      case False
      with ij j have i: "Suc i < m" "i < j" "i < m" by simp_all
      have a: "map ?ar [0..<m] ! i = real (Suc i)" using i by simp
      have "real (pos (Suc j)) \<le> real (if Suc j = m then H else pos (Suc j))"
        using chain_hi(1)[OF j assms(1)] by (simp only: of_nat_le_iff)
      moreover have "real (pos (Suc j)) = real (pos j) + real (Suc j)" by simp
      ultimately have "real (Suc j) \<le> ?ar j" by linarith
      moreover have "map ?ar [0..<m] ! j = ?ar j" using j by (simp only: nth_map_upt add_0 minus_nat.diff_0)
      ultimately have b: "real (Suc j) \<le> map ?ar [0..<m] ! j" by (simp only:)
      have c: "real (Suc i) \<le> real (Suc j)" using i(2) by simp
      from a b c show ?thesis by linarith
    qed
  qed
  then have "sort_key (\<lambda>(i, r). area strip (geometry r)) (enumerate 0 ?R) = enumerate 0 ?R"
    by (intro sort_key_id_if_sorted) (simp only: m)
  moreover have "tie_rank strip = (\<lambda>areas i. 0)" by (simp add: strip_def)
  ultimately show ?thesis by (simp add: small_shps_def sort_values_no_rank f)
qed

lemma chain_pass:
  assumes "inj c" "pos (Suc (Suc n)) \<le> H" "real H < area_lim"
  shows "pass strip (Some ()) area_lim None (chain_state (Suc (Suc n)) H c b a)
         = Inr (chain_state (Suc n) H (\<lambda>i. c (Suc i)) (Suc (Suc n)) (Suc n))"
proof -
  have s: "scan strip (Some ()) None (mask_shps_small (chain_state (Suc (Suc n)) H c b a))
      (gdf_out (chain_state (Suc (Suc n)) H c b a))
      = Inr (chain_rows (Suc (Suc n)) H (\<lambda>i. if Suc i < Suc (Suc n) then c (Suc i) else c i)
               (\<lambda>i. Suc i < Suc (Suc n)))"
    using chain_scan[OF assms(1,2)] by (simp add: chain_state_def)
  have le: "pos (Suc n) \<le> H" using assms(2) by simp
  show ?thesis
    unfolding pass_def s sum.case Let_def chain_dissolve[OF assms(1,2)] chain_small[OF le assms(3)]
    by (simp add: chain_state_def chain_length)
qed

lemma chain_continues: "0 < m \<Longrightarrow> b \<noteq> a \<Longrightarrow> continues (chain_state m H c b a)"
  by (simp add: continues_def chain_state_def chain_length)

lemma chain_needs_passes:
  "inj c \<Longrightarrow> n < m \<Longrightarrow> pos m \<le> H \<Longrightarrow> real H < area_lim \<Longrightarrow> b \<noteq> a
     \<Longrightarrow> simplify_loop_within n strip (Some ()) area_lim None (chain_state m H c b a) = None"
proof (induction n arbitrary: m c b a)
  case 0
  then show ?case by (simp add: chain_continues)
next
  case (Suc n)
  then obtain k where m: "m = Suc (Suc k)" by (cases m; cases "m - 1") auto
  have i: "inj (\<lambda>i. c (Suc i))"
    using Suc.prems(1) by (auto simp: inj_def)
  have p: "pass strip (Some ()) area_lim None (chain_state m H c b a)
      = Inr (chain_state (Suc k) H (\<lambda>i. c (Suc i)) (Suc (Suc k)) (Suc k))"
    unfolding m using Suc.prems m by (intro chain_pass) auto
  have "simplify_loop_within n strip (Some ()) area_lim None
      (chain_state (Suc k) H (\<lambda>i. c (Suc i)) (Suc (Suc k)) (Suc k)) = None"
    using Suc.prems m by (intro Suc.IH i) auto
  with p Suc.prems m show ?case by (simp add: chain_continues)
qed

lemma chain_initial:
  assumes "real (pos n) < area_lim"
  shows "initial strip (chain_gdf n) area_lim = Inr (chain_state n (pos n) real 3 2)"
proof -
  have e: "explode (features (chain_gdf n)) = features (chain_gdf n)"
    by (rule explode_polygons) (auto simp: chain_gdf_def)
  have "map prepare (features (chain_gdf n)) = chain_rows n (pos n) real (\<lambda>i. False)"
    unfolding chain_gdf_def chain_rows_def
    by (auto simp: prepare_def fillna_def)
  with e show ?thesis
    using chain_small[OF order_refl assms, of real]
    by (simp add: initial_def Let_def chain_state_def chain_gdf_def)
qed

lemma chain_within:
  "simplify_shps_within n strip (chain_gdf (Suc n)) (real (pos (Suc n)) + 1) None = None"
proof -
  have "simplify_loop_within n strip (Some ()) (real (pos (Suc n)) + 1) None
      (chain_state (Suc n) (pos (Suc n)) real 3 2) = None"
    by (rule chain_needs_passes) (simp_all add: inj_def)
  then show ?thesis
    using chain_initial[of "Suc n" "real (pos (Suc n)) + 1"]
    by (simp add: simplify_shps_within_def chain_gdf_def)
qed

lemma chain_pass_one:
  assumes "inj c" "pos 1 \<le> H" "real H < area_lim"
  shows "pass strip (Some ()) area_lim None (chain_state 1 H c b a) = Inr (chain_state 1 H c 1 1)"
proof -
  have f: "(\<lambda>i. if Suc i < 1 then c (Suc i) else c i) = c" "(\<lambda>i. Suc i < 1) = (\<lambda>i. False)"
    by auto
  have s: "scan strip (Some ()) None (mask_shps_small (chain_state 1 H c b a))
      (gdf_out (chain_state 1 H c b a)) = Inr (chain_rows 1 H c (\<lambda>i. False))"
    using chain_scan[OF assms(1,2)] by (simp add: chain_state_def f)
  have r: "chain_rows 1 H c (\<lambda>i. False)
      = [\<lparr>geometry = Polygon (pos 0, H), cats = [Num (c 0)], keeps = [], others = [], changed = False\<rparr>]"
    using chain_rows_Suc[of 0 H c "\<lambda>i. False"] by simp
  have d: "map (\<lambda>r. r\<lparr>changed := False\<rparr>) (explode (dissolve strip (chain_rows 1 H c (\<lambda>i. False))))
      = chain_rows 1 H c (\<lambda>i. False)"
    unfolding r by (simp add: strip_def strip_union_one explode_def)
  show ?thesis
    unfolding pass_def s sum.case Let_def d chain_small[OF assms(2,3)]
    by (simp add: chain_state_def chain_length)
qed

lemma chain_runs:
  "inj c \<Longrightarrow> pos (Suc k) \<le> H \<Longrightarrow> real H < area_lim \<Longrightarrow> b \<noteq> a
     \<Longrightarrow> simplify_loop_within (Suc k) strip (Some ()) area_lim None (chain_state (Suc k) H c b a)
         = Some (Inr (chain_state 1 H (\<lambda>i. c (i + k)) 1 1))"
proof (induction k arbitrary: c b a)
  case 0
  have "\<not> continues (chain_state 1 H c 1 1)"
    by (simp add: continues_def chain_state_def)
  with 0 chain_pass_one[of c H area_lim b a] show ?case
    by (simp add: chain_continues)
next
  case (Suc k)
  have i: "inj (\<lambda>i. c (Suc i))"
    using Suc.prems(1) by (auto simp: inj_def)
  have p: "pass strip (Some ()) area_lim None (chain_state (Suc (Suc k)) H c b a)
      = Inr (chain_state (Suc k) H (\<lambda>i. c (Suc i)) (Suc (Suc k)) (Suc k))"
    using Suc.prems by (intro chain_pass) auto
  have "simplify_loop_within (Suc k) strip (Some ()) area_lim None
      (chain_state (Suc k) H (\<lambda>i. c (Suc i)) (Suc (Suc k)) (Suc k))
      = Some (Inr (chain_state 1 H (\<lambda>i. c (Suc (i + k))) 1 1))"
    using Suc.prems by (intro Suc.IH i) auto
  with p Suc.prems show ?case by (simp add: chain_continues)
qed

lemma chain_result:
  "simplify_shps_within (Suc n) strip (chain_gdf (Suc n)) (real (pos (Suc n)) + 1) None
     = Some (Inr \<lparr>crs = Some (), features =
         [\<lparr>geometry = Polygon (0, pos (Suc n)), cats = [Some (Num (real n))], keeps = [],
           others = []\<rparr>]\<rparr>)"
proof -
  have "simplify_loop_within (Suc n) strip (Some ()) (real (pos (Suc n)) + 1) None
      (chain_state (Suc n) (pos (Suc n)) real 3 2)
      = Some (Inr (chain_state 1 (pos (Suc n)) (\<lambda>i. real (i + n)) 1 1))"
    by (rule chain_runs) (simp_all add: inj_def)
  moreover have "map finish (gdf_out (chain_state 1 (pos (Suc n)) (\<lambda>i. real (i + n)) 1 1))
      = [\<lparr>geometry = Polygon (0, pos (Suc n)), cats = [Some (Num (real n))], keeps = [], others = []\<rparr>]"
    using chain_rows_Suc[of 0 "pos (Suc n)" "\<lambda>i. real (i + n)" "\<lambda>i. False"]
    by (simp add: chain_state_def finish_def restore_nan_def)
  ultimately show ?thesis
    using chain_initial[of "Suc n" "real (pos (Suc n)) + 1"]
    by (simp add: simplify_shps_within_def chain_gdf_def)
qed

section \<open>No ceiling on the passes\<close>

text \<open>
  C2, as the claim states it, fails: no number of passes is a ceiling. Whatever \<open>N\<close> is,
  the loop of \<open>simplify_shps\<close> is still running after \<open>N\<close> passes over the chain of
  \<open>N + 1\<close> strips of \<open>N + 1\<close> categories, with a geometry library in which a union
  never has more parts than it is given. (Every pass merges the last two strips only;
  the call returns the whole chain as one polygon after \<open>N + 1\<close> passes, see
  \<open>chain_result\<close>, and nothing is reported.)
\<close>

theorem no_pass_ceiling:
  "\<not> (\<exists>N. \<forall>gdf_in area_lim. simplify_shps_within N strip gdf_in area_lim None \<noteq> None)"
proof
  assume "\<exists>N. \<forall>gdf_in area_lim. simplify_shps_within N strip gdf_in area_lim None \<noteq> None"
  then obtain N where "\<forall>gdf_in area_lim. simplify_shps_within N strip gdf_in area_lim None \<noteq> None"
    by blast
  then have "simplify_shps_within N strip (chain_gdf (Suc N)) (real (pos (Suc N)) + 1) None \<noteq> None"
    by blast
  from this chain_within[of N] show False by (rule notE)
qed

text \<open>
  C2, amended. \<open>simplify_shps\<close> has no ceiling on its passes and reports no
  non-convergence: its loop ends through the exit test of the loop only. When the
  geometry library never gives a union of \<open>k\<close> polygons more than \<open>k\<close> parts, the loop
  ends after at most \<open>n\<close> passes, \<open>n\<close> being the number of features after the first
  explode, and the call returns (a layer or an error): it does not loop for ever. A layer
  that is returned is the store as the last dissolve and explode left it, at an exit test
  that holds.
\<close>

theorem loop_ends_by_exit_test:
  assumes "shrinking E"
  shows "\<exists>y. simplify_shps_within (length (explode (features gdf_in))) E gdf_in area_lim comp_raster
               = Some y
             \<and> simplify_shps E gdf_in area_lim comp_raster = Some y
             \<and> (\<forall>out. y = Inr out \<longrightarrow>
                   (\<exists>st. reachable E gdf_in area_lim comp_raster st \<and> \<not> continues st
                      \<and> features out = map finish (gdf_out st)))"
proof -
  let ?n = "length (explode (features gdf_in))"
  have ex: "\<exists>y. simplify_shps_within ?n E gdf_in area_lim comp_raster = Some y"
  proof (cases "initial E gdf_in area_lim")
    case (Inl e)
    then show ?thesis by (simp add: simplify_shps_within_def)
  next
    case (Inr st)
    then have "length (gdf_out st) = ?n"
      by (auto simp: initial_def Let_def split: sum.splits)
    with loop_within_returns[OF assms reachable.start[OF Inr, of comp_raster], of ?n]
    obtain y where "simplify_loop_within ?n E (crs gdf_in) area_lim comp_raster st = Some y"
      by auto
    with Inr show ?thesis
      by (cases y) (simp_all add: simplify_shps_within_def)
  qed
  then obtain y where w: "simplify_shps_within ?n E gdf_in area_lim comp_raster = Some y" ..
  then have s: "simplify_shps E gdf_in area_lim comp_raster = Some y" by (rule within_shps)
  have "\<exists>st. reachable E gdf_in area_lim comp_raster st \<and> \<not> continues st
          \<and> features out = map finish (gdf_out st)" if "y = Inr out" for out
  proof -
    from s that obtain st st' where
      i: "initial E gdf_in area_lim = Inr st"
      and l: "simplify_loop E (crs gdf_in) area_lim comp_raster st = Some (Inr st')"
      and o: "out = \<lparr>crs = crs gdf_in, features = map finish (gdf_out st')\<rparr>"
      by (auto simp: simplify_shps_def split: sum.splits option.splits)
    from loop_reachable[OF l reachable.start[OF i]] o show ?thesis by auto
  qed
  with w s show ?thesis by blast
qed

theorem loop_ends_by_exit_test_witness:
  "shrinking strip
   \<and> simplify_shps strip (chain_gdf 3) 7 None
       = Some (Inr \<lparr>crs = Some (), features =
           [\<lparr>geometry = Polygon (0, 6), cats = [Some (Num 2)], keeps = [], others = []\<rparr>]\<rparr>)
   \<and> simplify_shps_within 3 strip (chain_gdf 3) 7 None = simplify_shps strip (chain_gdf 3) 7 None
   \<and> simplify_shps_within 2 strip (chain_gdf 3) 7 None = None"
proof -
  have p: "pos (Suc 2) = 6" by (simp add: eval_nat_numeral)
  have e: "explode (features (chain_gdf 3)) = features (chain_gdf 3)"
    by (rule explode_polygons) (auto simp: chain_gdf_def)
  then have "length (explode (features (chain_gdf 3))) = 3"
    by (simp add: chain_gdf_def)
  with loop_ends_by_exit_test[OF shrinking_strip, of "chain_gdf 3" 7 None]
  obtain y where y: "simplify_shps_within 3 strip (chain_gdf 3) 7 None = Some y"
    "simplify_shps strip (chain_gdf 3) 7 None = Some y"
    by auto
  have r: "simplify_shps_within 3 strip (chain_gdf 3) 7 None
      = Some (Inr \<lparr>crs = Some (), features =
           [\<lparr>geometry = Polygon (0, 6), cats = [Some (Num 2)], keeps = [], others = []\<rparr>]\<rparr>)"
    using chain_result[of 2] unfolding p by (simp add: eval_nat_numeral)
  have n: "simplify_shps_within 2 strip (chain_gdf 3) 7 None = None"
    using chain_within[of 2] unfolding p by (simp add: eval_nat_numeral)
  from y r n shrinking_strip show ?thesis by simp
qed

end
